theory Spec2Isabelle
  imports Main
begin

section \<open>Values shared by all backends\<close>

text \<open>
  Byte slices and Go strings are byte sequences: both are \<open>string\<close> (a list of 8-bit
  characters). A nil byte slice is \<open>None\<close> where the source distinguishes it.
\<close>

type_synonym bytes = string

text \<open>
  Go error values. \<open>ErrFileNotFound\<close> and \<open>ErrIsNotDir\<close> are the package's own
  errors, \<open>io_EOF\<close> and \<open>os_ErrNotExist\<close> the ones of the standard library that the code
  tests for; every other error (of the operating system, the WebDav client or the S3
  service) is opaque to the code and carried as \<open>OtherError\<close> with its text.
  \<open>Panic\<close> is a run-time panic.
\<close>

datatype error =
    ErrFileNotFound
  | ErrIsNotDir
  | io_EOF
  | os_ErrNotExist
  | OtherError string
  | Panic string

definition os_IsNotExist :: "error \<Rightarrow> bool" where
  "os_IsNotExist e = (e = os_ErrNotExist)"

definition META_PREFIX :: string where
  "META_PREFIX = ''.meta''"

definition newline :: char where
  "newline = CHR 0x0A"

section \<open>Metadata codec\<close>

text \<open>
  A Go \<open>map[string]string\<close> is a partial function; a nil map is \<open>None\<close> where a
  function receives or returns one. The order in which \<open>range\<close> visits a map is chosen by
  the run time, so every function that ranges over a map takes that order as an argument:
  a list \<open>ks\<close> of the keys, and \<open>range_order ks m\<close> says that it enumerates \<open>m\<close>.
\<close>

type_synonym gomap = "string \<rightharpoonup> string"

definition range_order :: "string list \<Rightarrow> gomap \<Rightarrow> bool" where
  "range_order ks m = (distinct ks \<and> set ks = dom m)"

definition entries :: "gomap option \<Rightarrow> gomap" where
  "entries m = (case m of None \<Rightarrow> Map.empty | Some f \<Rightarrow> f)"

text \<open>\<open>bytes.Split(s, []byte{sep})\<close>: the pieces of \<open>s\<close> between the separators.\<close>

fun bytes_Split :: "char \<Rightarrow> bytes \<Rightarrow> bytes list" where
  "bytes_Split sep [] = [[]]"
| "bytes_Split sep (c # cs) =
     (if c = sep then [] # bytes_Split sep cs
      else (case bytes_Split sep cs of
              [] \<Rightarrow> [[c]]
            | w # ws \<Rightarrow> (c # w) # ws))"

text \<open>\<open>meta2Bytes\<close>: one \<open>key=value\<close> line per entry, in the order of the \<open>range\<close>.\<close>

definition meta_line :: "gomap \<Rightarrow> string \<Rightarrow> bytes" where
  "meta_line meta key =
     (case meta key of
        None \<Rightarrow> []
      | Some v \<Rightarrow> key @ ''='' @ v @ [newline])"

definition meta2Bytes :: "string list \<Rightarrow> gomap \<Rightarrow> bytes" where
  "meta2Bytes ks meta = concat (map (meta_line meta) ks)"

text \<open>\<open>bytes2Meta\<close>: the body of the loop over the lines, then the loop.\<close>

definition bytes2Meta_line :: "gomap \<Rightarrow> bytes \<Rightarrow> gomap" where
  "bytes2Meta_line meta line =
     (if length line = 0 then meta
      else (let pair = bytes_Split CHR ''='' line
            in if length pair \<noteq> 2 then meta
               else meta(pair ! 0 \<mapsto> pair ! 1)))"

definition bytes2Meta :: "bytes \<Rightarrow> gomap" where
  "bytes2Meta b = foldl bytes2Meta_line Map.empty (bytes_Split newline b)"

text \<open>A string that the codec can carry: neither \<open>=\<close> nor a newline in it.\<close>

definition codec_safe :: "string \<Rightarrow> bool" where
  "codec_safe s = (CHR ''='' \<notin> set s \<and> newline \<notin> set s)"

definition codec_safe_map :: "gomap \<Rightarrow> bool" where
  "codec_safe_map m = (\<forall>k v. m k = Some v \<longrightarrow> codec_safe k \<and> codec_safe v)"

section \<open>The file system and the WebDav server\<close>

text \<open>
  The local backend works on the file system through the \<open>os\<close> package, the WebDav
  backend on a remote server through its client. Both are modelled by the same state: the
  content of every file that is present, and the paths on which the environment fails
  (a permission, a broken disk, the network): every operation on such a path returns the
  path's error; the other failure is absence. Directories are not part of the state:
  every path that is present is a file. The \<open>ttl\<close> argument of the
  interface is used by the S3 backend alone, as the expiry header of the request, and
  the cancellation context decides only whether the call is made; both are left out.
\<close>

record store =
  files :: "string \<rightharpoonup> bytes"
  faults :: "string \<Rightarrow> error option"

record FileInfo =
  Name :: string
  Size :: int

text \<open>An open file: the file it refers to and the read position.\<close>

record os_File =
  file_path :: string
  file_pos :: nat

text \<open>
  The name that a \<open>FileInfo\<close> reports is the last element of the path, as
  \<open>basename\<close> of the \<open>os\<close> package computes it: the slashes at the end are removed,
  then everything up to the last slash. \<open>strip_slashes\<close> works on the reversed path.
\<close>

fun strip_slashes :: "string \<Rightarrow> string" where
  "strip_slashes (c # d # cs) =
     (if c = CHR ''/'' then strip_slashes (d # cs) else c # d # cs)"
| "strip_slashes cs = cs"

definition basename :: "string \<Rightarrow> string" where
  "basename name =
     (case strip_slashes (rev name) of
        [] \<Rightarrow> []
      | c # cs \<Rightarrow> rev (c # takeWhile (\<lambda>x. x \<noteq> CHR ''/'') cs))"

definition os_Stat :: "store \<Rightarrow> string \<Rightarrow> error + FileInfo" where
  "os_Stat st p =
     (case faults st p of
        Some e \<Rightarrow> Inl e
      | None \<Rightarrow>
          (case files st p of
             None \<Rightarrow> Inl os_ErrNotExist
           | Some c \<Rightarrow> Inr \<lparr>Name = basename p, Size = int (length c)\<rparr>))"

definition os_WriteFile :: "store \<Rightarrow> string \<Rightarrow> bytes \<Rightarrow> error option \<times> store" where
  "os_WriteFile st p b =
     (case faults st p of
        Some e \<Rightarrow> (Some e, st)
      | None \<Rightarrow> (None, st\<lparr>files := (files st)(p \<mapsto> b)\<rparr>))"

definition os_ReadFile :: "store \<Rightarrow> string \<Rightarrow> error + bytes" where
  "os_ReadFile st p =
     (case faults st p of
        Some e \<Rightarrow> Inl e
      | None \<Rightarrow>
          (case files st p of
             None \<Rightarrow> Inl os_ErrNotExist
           | Some c \<Rightarrow> Inr c))"

definition os_Open :: "store \<Rightarrow> string \<Rightarrow> error + os_File" where
  "os_Open st p =
     (case faults st p of
        Some e \<Rightarrow> Inl e
      | None \<Rightarrow>
          (case files st p of
             None \<Rightarrow> Inl os_ErrNotExist
           | Some c \<Rightarrow> Inr \<lparr>file_path = p, file_pos = 0\<rparr>))"


text \<open>What is left to read from an open file, at the time of the read.\<close>

definition File_rest :: "store \<Rightarrow> os_File \<Rightarrow> bytes" where
  "File_rest st f =
     (case files st (file_path f) of
        None \<Rightarrow> []
      | Some c \<Rightarrow> drop (file_pos f) c)"


text \<open>
  \<open>(*os.File).ReadAt(buf, off)\<close> with a buffer of \<open>len\<close> zero bytes: the buffer after the
  call and the error. A negative offset is an error; fewer bytes than the buffer holds
  are reported as \<open>io.EOF\<close>, and the rest of the buffer stays zero.
\<close>

definition File_ReadAt :: "store \<Rightarrow> os_File \<Rightarrow> nat \<Rightarrow> int \<Rightarrow> bytes \<times> error option" where
  "File_ReadAt st f len off =
     (if off < 0 then (replicate len (CHR 0x00), Some (OtherError ''negative offset''))
      else (let content = (case files st (file_path f) of None \<Rightarrow> [] | Some c \<Rightarrow> c);
                got = take len (drop (nat off) content)
            in (got @ replicate (len - length got) (CHR 0x00),
                if length got < len then Some io_EOF else None)))"

text \<open>Arithmetic on \<open>int64\<close> wraps around.\<close>

definition wrap64 :: "int \<Rightarrow> int" where
  "wrap64 x = (x + 2 ^ 63) mod 2 ^ 64 - 2 ^ 63"

section \<open>The local backend\<close>

definition Local_IsExist :: "store \<Rightarrow> string \<Rightarrow> bool" where
  "Local_IsExist st filePath =
     (case os_Stat st filePath of
        Inl err \<Rightarrow> False
      | Inr info \<Rightarrow> Size info > 0)"

definition Local_CreateFile ::
  "store \<Rightarrow> string \<Rightarrow> bytes \<Rightarrow> gomap option \<Rightarrow> string list \<Rightarrow> error option \<times> store" where
  "Local_CreateFile st path file meta ks =
     (if meta \<noteq> None
      then os_WriteFile st (path @ META_PREFIX) (meta2Bytes ks (entries meta))
      else os_WriteFile st path file)"

definition Local_GetFile :: "store \<Rightarrow> string \<Rightarrow> error + bytes option" where
  "Local_GetFile st path =
     (if \<not> Local_IsExist st path then Inr None
      else (case os_ReadFile st path of
              Inl err \<Rightarrow> Inl err
            | Inr b \<Rightarrow> Inr (Some b)))"

definition Local_Stat :: "store \<Rightarrow> string \<Rightarrow> error + FileInfo \<times> gomap option" where
  "Local_Stat st path =
     (case os_Stat st path of
        Inl err \<Rightarrow> (if os_IsNotExist err then Inl ErrFileNotFound else Inl err)
      | Inr info \<Rightarrow>
          (case Local_GetFile st (path @ META_PREFIX) of
             Inl err \<Rightarrow> Inl err
           | Inr meta \<Rightarrow>
               Inr (info, Some (bytes2Meta (case meta of None \<Rightarrow> [] | Some b \<Rightarrow> b)))))"



text \<open>
  \<open>GetFilePartially\<close>: \<open>make\<close> panics for a negative length. How large a buffer the
  run time can allocate depends on the machine and is not part of the state: a buffer of
  a length that is not negative is taken to be allocated.
\<close>

definition Local_GetFilePartially ::
  "store \<Rightarrow> string \<Rightarrow> int \<Rightarrow> int \<Rightarrow> error + bytes option" where
  "Local_GetFilePartially st path offset length0 =
     (if \<not> Local_IsExist st path then Inr None
      else (case os_Open st path of
              Inl err \<Rightarrow> Inl err
            | Inr file \<Rightarrow>
                (case (if length0 < 0
                       then (case Local_Stat st path of
                               Inl err \<Rightarrow> Inl err
                             | Inr (info, meta) \<Rightarrow> Inr (wrap64 (Size info - offset)))
                       else Inr length0) of
                   Inl err \<Rightarrow> Inl err
                 | Inr length1 \<Rightarrow>
                     (if length1 < 0 then Inl (Panic ''makeslice: len out of range'')
                      else (case File_ReadAt st file (nat length1) offset of
                              (buf, err) \<Rightarrow>
                                (if err \<noteq> None \<and> err \<noteq> Some io_EOF then Inl (the err)
                                 else Inr (Some buf)))))))"

definition Local_FileReader ::
  "store \<Rightarrow> string \<Rightarrow> int \<Rightarrow> int \<Rightarrow> error + os_File option" where
  "Local_FileReader st path offset length0 =
     (if \<not> Local_IsExist st path then Inr None
      else (case os_Open st path of
              Inl err \<Rightarrow> Inl err
            | Inr file \<Rightarrow> Inr (Some file)))"

section \<open>The WebDav backend\<close>

text \<open>The calls of the WebDav client that the backend makes. The name that \<open>Stat\<close>
  reports is the display name the server gives the resource, the last element of its
  path.\<close>

definition client_Stat :: "store \<Rightarrow> string \<Rightarrow> error + FileInfo" where
  "client_Stat st p =
     (case faults st p of
        Some e \<Rightarrow> Inl e
      | None \<Rightarrow>
          (case files st p of
             None \<Rightarrow> Inl os_ErrNotExist
           | Some c \<Rightarrow> Inr \<lparr>Name = basename p, Size = int (length c)\<rparr>))"

definition client_Write :: "store \<Rightarrow> string \<Rightarrow> bytes \<Rightarrow> error option \<times> store" where
  "client_Write st p b =
     (case faults st p of
        Some e \<Rightarrow> (Some e, st)
      | None \<Rightarrow> (None, st\<lparr>files := (files st)(p \<mapsto> b)\<rparr>))"

definition client_Read :: "store \<Rightarrow> string \<Rightarrow> error + bytes" where
  "client_Read st p =
     (case faults st p of
        Some e \<Rightarrow> Inl e
      | None \<Rightarrow>
          (case files st p of
             None \<Rightarrow> Inl os_ErrNotExist
           | Some c \<Rightarrow> Inr c))"


definition WebDav_IsExist :: "store \<Rightarrow> string \<Rightarrow> bool" where
  "WebDav_IsExist st filePath =
     (case client_Stat st filePath of
        Inl err \<Rightarrow> False
      | Inr info \<Rightarrow> Size info > 0)"

definition WebDav_CreateFile ::
  "store \<Rightarrow> string \<Rightarrow> bytes \<Rightarrow> gomap option \<Rightarrow> string list \<Rightarrow> error option \<times> store" where
  "WebDav_CreateFile st path file meta ks =
     (case (if meta \<noteq> None
            then client_Write st (path @ META_PREFIX) (meta2Bytes ks (entries meta))
            else (None, st)) of
        (Some err, st1) \<Rightarrow> (Some err, st1)
      | (None, st1) \<Rightarrow> client_Write st1 path file)"

definition WebDav_GetFile :: "store \<Rightarrow> string \<Rightarrow> error + bytes option" where
  "WebDav_GetFile st path =
     (if \<not> WebDav_IsExist st path then Inr None
      else (case client_Read st path of
              Inl err \<Rightarrow> Inl err
            | Inr b \<Rightarrow> Inr (Some b)))"

definition WebDav_Stat :: "store \<Rightarrow> string \<Rightarrow> error + FileInfo \<times> gomap option" where
  "WebDav_Stat st path =
     (case client_Stat st path of
        Inl err \<Rightarrow> Inl err
      | Inr info \<Rightarrow>
          (let isExist = WebDav_IsExist st (path @ META_PREFIX)
           in if \<not> isExist then Inr (info, None)
              else (case client_Read st (path @ META_PREFIX) of
                      Inl err \<Rightarrow> Inl err
                    | Inr meta \<Rightarrow> Inr (info, Some (bytes2Meta meta)))))"


section \<open>The null backend\<close>

definition Empty_IsExist :: "string \<Rightarrow> bool" where
  "Empty_IsExist filePath = False"

definition Empty_CreateFile :: "string \<Rightarrow> bytes \<Rightarrow> gomap option \<Rightarrow> error option" where
  "Empty_CreateFile path file meta = None"

definition Empty_CopyFile :: "string \<Rightarrow> string \<Rightarrow> gomap option \<Rightarrow> error option" where
  "Empty_CopyFile src dst meta = None"

definition Empty_GetFile :: "string \<Rightarrow> error + bytes option" where
  "Empty_GetFile path = Inr None"

definition Empty_GetFilePartially :: "string \<Rightarrow> int \<Rightarrow> int \<Rightarrow> error + bytes option" where
  "Empty_GetFilePartially path offset length0 = Inr None"

text \<open>\<open>Stat\<close> of the null backend returns three nils: no file information, no metadata,
  no error.\<close>

definition Empty_Stat :: "string \<Rightarrow> error + FileInfo option \<times> gomap option" where
  "Empty_Stat path = Inr (None, None)"

section \<open>Byte sources\<close>

text \<open>
  An \<open>io.Reader\<close> is modelled by what it will deliver: a sequence of segments, each the
  bytes of one arrival and the error reported with the last of them. \<open>Read(buf)\<close>
  delivers at most \<open>len(buf)\<close> bytes, from the first segment only; a source in memory
  is a single segment. After the last segment every \<open>Read\<close> returns no bytes and
  \<open>io.EOF\<close>.
\<close>

datatype segment = Segment (seg_bytes: bytes) (seg_error: "error option")

type_synonym reader = "segment list"

fun stream_Read :: "nat \<Rightarrow> reader \<Rightarrow> (bytes \<times> error option) \<times> reader" where
  "stream_Read n [] = (([], Some io_EOF), [])"
| "stream_Read n (Segment d e # rest) =
     (if length d \<le> n then ((d, e), rest)
      else ((take n d, None), Segment (drop n d) e # rest))"

fun reader_size :: "reader \<Rightarrow> nat" where
  "reader_size [] = 0"
| "reader_size (Segment d e # rest) = Suc (length d) + reader_size rest"

section \<open>Metadata as request and response headers\<close>

text \<open>
  The S3 client sends the metadata of a request as one header per entry, named
  \<open>X-Amz-Meta-\<close> followed by the key, and reads the metadata of a response from the
  headers of that name. What the code observes of this:
  \<^item> the client trims white space from the key and the value of an entry;
  \<^item> a key must consist of the characters of a header name and a value must not hold a
    control character, or the request is refused before it is sent;
  \<^item> the service keeps the key in lower case;
  \<^item> a header name of a response is read in its canonical form: the first letter and
    every letter after a hyphen in upper case, every other letter in lower case. So the
    key \<open>owner\<close> comes back as \<open>Owner\<close>;
  \<^item> when two entries of a request fall on the same header, the value of the one that
    was ranged over first is the one that comes back.
\<close>

definition lower_letters :: string where
  "lower_letters = ''abcdefghijklmnopqrstuvwxyz''"

definition upper_letters :: string where
  "upper_letters = ''ABCDEFGHIJKLMNOPQRSTUVWXYZ''"

definition to_upper :: "char \<Rightarrow> char" where
  "to_upper c = (case map_of (zip lower_letters upper_letters) c of None \<Rightarrow> c | Some u \<Rightarrow> u)"

definition to_lower :: "char \<Rightarrow> char" where
  "to_lower c = (case map_of (zip upper_letters lower_letters) c of None \<Rightarrow> c | Some l \<Rightarrow> l)"

text \<open>The characters of a header name (a token) and of a header value.\<close>

definition token_char :: "char \<Rightarrow> bool" where
  "token_char c =
     (c \<in> set (lower_letters @ upper_letters @ ''0123456789'' @ ''!#$%&*+-.^_|~''
               @ [CHR 0x27, CHR 0x60]))"

definition value_char :: "char \<Rightarrow> bool" where
  "value_char c = (c = CHR 0x09 \<or> (32 \<le> (of_char c :: nat) \<and> (of_char c :: nat) \<noteq> 127))"

definition space_char :: "char \<Rightarrow> bool" where
  "space_char c = (c \<in> set [CHR 0x20, CHR 0x09, CHR 0x0A, CHR 0x0B, CHR 0x0C, CHR 0x0D])"

definition trim_space :: "string \<Rightarrow> string" where
  "trim_space s = rev (dropWhile space_char (rev (dropWhile space_char s)))"

fun canonical_from :: "bool \<Rightarrow> string \<Rightarrow> string" where
  "canonical_from upper [] = []"
| "canonical_from upper (c # cs) =
     (if upper then to_upper c else to_lower c) # canonical_from (c = CHR ''-'') cs"

definition canonical_key :: "string \<Rightarrow> string" where
  "canonical_key k = canonical_from True k"

definition lower_key :: "string \<Rightarrow> string" where
  "lower_key k = map to_lower k"

text \<open>
  Whether the request with the metadata \<open>m\<close>, ranged over in the order \<open>ks\<close>, can be
  sent; the metadata that the service keeps for it; and the metadata that the client
  reads from what the service keeps.
\<close>

definition header_ok :: "string list \<Rightarrow> gomap \<Rightarrow> bool" where
  "header_ok ks m =
     list_all (\<lambda>k. case m k of
                      None \<Rightarrow> True
                    | Some v \<Rightarrow> list_all token_char (trim_space k)
                                \<and> list_all value_char (trim_space v)) ks"

definition sent_metadata :: "string list \<Rightarrow> gomap \<Rightarrow> gomap" where
  "sent_metadata ks m =
     foldr (\<lambda>k kept. case m k of
                        None \<Rightarrow> kept
                      | Some v \<Rightarrow> kept(lower_key (trim_space k) \<mapsto> trim_space v))
       ks Map.empty"

definition received_metadata :: "gomap \<Rightarrow> gomap" where
  "received_metadata kept = (\<lambda>k. if canonical_key k = k then kept (lower_key k) else None)"

text \<open>A mapping that travels unchanged: its keys are header names in canonical form,
  its values are printable ASCII text with no white space at either end.\<close>

definition text_char :: "char \<Rightarrow> bool" where
  "text_char c = (32 \<le> (of_char c :: nat) \<and> (of_char c :: nat) < 127)"

definition header_safe_map :: "gomap \<Rightarrow> bool" where
  "header_safe_map m =
     (\<forall>k v. m k = Some v \<longrightarrow>
        canonical_key k = k \<and> trim_space k = k \<and> list_all token_char k
        \<and> trim_space v = v \<and> list_all text_char v)"

section \<open>The S3 service\<close>

text \<open>
  The service keeps the objects of the bucket, each with its body and its metadata, and
  the multipart uploads that are open, each with the parts it has received. It records
  the calls that change it, in order, and it fails where the environment makes it fail:
  \<open>failing\<close> gives the error of such a call. The metadata of an object is kept the
  way its headers arrived, under keys in lower case. The integrity tag of a part is the
  part itself, so two parts have the same tag only when they are equal.
\<close>

record s3_object =
  Body :: bytes
  Metadata :: gomap

record multipart_upload =
  upload_Key :: string
  upload_parts :: "int \<rightharpoonup> bytes"

record CompletedPart =
  ETag :: bytes
  PartNumber :: int

record CreateMultipartUploadOutput =
  Key :: string
  UploadId :: nat

datatype s3_call =
    HeadObject string
  | GetObject string
  | PutObject string
  | CopyObject string string
  | CreateMultipartUpload string
  | UploadPart string nat int bytes
  | AbortMultipartUpload string nat
  | CompleteMultipartUpload string nat

record s3 =
  objects :: "string \<rightharpoonup> s3_object"
  uploads :: "nat \<rightharpoonup> multipart_upload"
  next_upload :: nat
  failing :: "s3_call \<Rightarrow> error option"
  calls :: "s3_call list"

text \<open>The \<open>Range\<close> header of a request: \<open>bytes=a-b\<close> or \<open>bytes=a-\<close>.\<close>

datatype byte_range = bytes_from_to int int | bytes_from int

text \<open>\<open>HeadObject\<close>: the output has the metadata as the client reads it from the
  headers of the response, its keys in canonical form.\<close>

definition client_HeadObject :: "s3 \<Rightarrow> string \<Rightarrow> error + s3_object" where
  "client_HeadObject s key =
     (case failing s (HeadObject key) of
        Some e \<Rightarrow> Inl e
      | None \<Rightarrow>
          (case objects s key of
             None \<Rightarrow> Inl (OtherError ''NotFound'')
           | Some obj \<Rightarrow> Inr (obj\<lparr>Metadata := received_metadata (Metadata obj)\<rparr>)))"

text \<open>A range that starts outside the object is refused.\<close>

definition client_GetObject :: "s3 \<Rightarrow> string \<Rightarrow> byte_range \<Rightarrow> error + bytes" where
  "client_GetObject s key range0 =
     (case failing s (GetObject key) of
        Some e \<Rightarrow> Inl e
      | None \<Rightarrow>
          (case objects s key of
             None \<Rightarrow> Inl (OtherError ''NoSuchKey'')
           | Some obj \<Rightarrow>
               (case range0 of
                  bytes_from a \<Rightarrow>
                    (if 0 \<le> a \<and> a < int (length (Body obj))
                     then Inr (drop (nat a) (Body obj))
                     else Inl (OtherError ''InvalidRange''))
                | bytes_from_to a b \<Rightarrow>
                    (if 0 \<le> a \<and> a < int (length (Body obj)) \<and> a \<le> b
                     then Inr (take (nat (b - a + 1)) (drop (nat a) (Body obj)))
                     else Inl (OtherError ''InvalidRange'')))))"

text \<open>\<open>PutObject\<close>: the metadata of the request is ranged over in the order \<open>ks\<close>
  when its headers are built.\<close>

definition client_PutObject ::
  "s3 \<Rightarrow> string \<Rightarrow> bytes \<Rightarrow> gomap \<Rightarrow> string list \<Rightarrow> error option \<times> s3" where
  "client_PutObject s key body meta ks =
     (let s1 = s\<lparr>calls := calls s @ [PutObject key]\<rparr>
      in case failing s (PutObject key) of
           Some e \<Rightarrow> (Some e, s1)
         | None \<Rightarrow>
             (if \<not> header_ok ks meta then (Some (OtherError ''invalid header field''), s1)
              else (None, s1\<lparr>objects := (objects s)(key \<mapsto>
                            \<lparr>Body = body, Metadata = sent_metadata ks meta\<rparr>)\<rparr>)))"


definition client_CreateMultipartUpload ::
  "s3 \<Rightarrow> string \<Rightarrow> (error + CreateMultipartUploadOutput) \<times> s3" where
  "client_CreateMultipartUpload s key =
     (let s1 = s\<lparr>calls := calls s @ [CreateMultipartUpload key]\<rparr>
      in case failing s (CreateMultipartUpload key) of
           Some e \<Rightarrow> (Inl e, s1)
         | None \<Rightarrow>
             (Inr \<lparr>Key = key, UploadId = next_upload s\<rparr>,
              s1\<lparr>uploads := (uploads s)(next_upload s \<mapsto>
                    \<lparr>upload_Key = key, upload_parts = Map.empty\<rparr>),
                  next_upload := Suc (next_upload s)\<rparr>))"

definition client_UploadPart ::
  "s3 \<Rightarrow> string \<Rightarrow> nat \<Rightarrow> int \<Rightarrow> bytes \<Rightarrow> (error + bytes) \<times> s3" where
  "client_UploadPart s key uid partNumber body =
     (let s1 = s\<lparr>calls := calls s @ [UploadPart key uid partNumber body]\<rparr>
      in case failing s (UploadPart key uid partNumber body) of
           Some e \<Rightarrow> (Inl e, s1)
         | None \<Rightarrow>
             (case uploads s uid of
                None \<Rightarrow> (Inl (OtherError ''NoSuchUpload''), s1)
              | Some u \<Rightarrow>
                  (Inr body,
                   s1\<lparr>uploads := (uploads s)(uid \<mapsto>
                         u\<lparr>upload_parts := (upload_parts u)(partNumber \<mapsto> body)\<rparr>)\<rparr>)))"

definition client_AbortMultipartUpload :: "s3 \<Rightarrow> string \<Rightarrow> nat \<Rightarrow> error option \<times> s3" where
  "client_AbortMultipartUpload s key uid =
     (let s1 = s\<lparr>calls := calls s @ [AbortMultipartUpload key uid]\<rparr>
      in case failing s (AbortMultipartUpload key uid) of
           Some e \<Rightarrow> (Some e, s1)
         | None \<Rightarrow>
             (case uploads s uid of
                None \<Rightarrow> (Some (OtherError ''NoSuchUpload''), s1)
              | Some u \<Rightarrow> (None, s1\<lparr>uploads := (uploads s)(uid := None)\<rparr>)))"

text \<open>
  \<open>CompleteMultipartUpload\<close>: the list of parts must not be empty, its part numbers must
  ascend, every part must have been received under its tag, and every part but the last
  must have at least 5 MiB, the smallest part that the service takes; the object is then
  the parts in the order of the list, and the upload is closed.
\<close>

definition minPartSize :: nat where
  "minPartSize = 5 * 1024 * 1024"

definition part_received :: "multipart_upload \<Rightarrow> CompletedPart \<Rightarrow> bool" where
  "part_received u p = (upload_parts u (PartNumber p) = Some (ETag p))"

definition part_body :: "multipart_upload \<Rightarrow> CompletedPart \<Rightarrow> bytes" where
  "part_body u p = (case upload_parts u (PartNumber p) of None \<Rightarrow> [] | Some d \<Rightarrow> d)"

definition client_CompleteMultipartUpload ::
  "s3 \<Rightarrow> string \<Rightarrow> nat \<Rightarrow> CompletedPart list \<Rightarrow> error option \<times> s3" where
  "client_CompleteMultipartUpload s key uid parts =
     (let s1 = s\<lparr>calls := calls s @ [CompleteMultipartUpload key uid]\<rparr>
      in case failing s (CompleteMultipartUpload key uid) of
           Some e \<Rightarrow> (Some e, s1)
         | None \<Rightarrow>
             (case uploads s uid of
                None \<Rightarrow> (Some (OtherError ''NoSuchUpload''), s1)
              | Some u \<Rightarrow>
                  (if parts = [] then (Some (OtherError ''MalformedXML''), s1)
                   else if \<not> sorted_wrt (<) (map PartNumber parts)
                   then (Some (OtherError ''InvalidPartOrder''), s1)
                   else if \<not> list_all (part_received u) parts
                   then (Some (OtherError ''InvalidPart''), s1)
                   else if \<not> list_all (\<lambda>p. minPartSize \<le> length (part_body u p))
                                 (butlast parts)
                   then (Some (OtherError ''EntityTooSmall''), s1)
                   else (None,
                         s1\<lparr>objects := (objects s)(key \<mapsto>
                               \<lparr>Body = concat (map (part_body u) parts),
                                Metadata = Map.empty\<rparr>),
                             uploads := (uploads s)(uid := None)\<rparr>))))"

section \<open>The S3 backend\<close>

text \<open>The functions without a context call the ones with a context, on the background
  context; the context itself is left out.\<close>

definition S3_IsExist :: "s3 \<Rightarrow> string \<Rightarrow> bool" where
  "S3_IsExist s filePath =
     (case client_HeadObject s filePath of
        Inl err \<Rightarrow> False
      | Inr out \<Rightarrow> True)"

definition S3_CreateFileWithContext ::
  "s3 \<Rightarrow> string \<Rightarrow> bytes \<Rightarrow> gomap option \<Rightarrow> string list \<Rightarrow> error option \<times> s3" where
  "S3_CreateFileWithContext s path file meta ks =
     client_PutObject s path file (entries meta) ks"

definition S3_CreateFile ::
  "s3 \<Rightarrow> string \<Rightarrow> bytes \<Rightarrow> gomap option \<Rightarrow> string list \<Rightarrow> error option \<times> s3" where
  "S3_CreateFile s path file meta ks = S3_CreateFileWithContext s path file meta ks"



definition abortMultipartUpload :: "s3 \<Rightarrow> CreateMultipartUploadOutput \<Rightarrow> error option \<times> s3" where
  "abortMultipartUpload s resp = client_AbortMultipartUpload s (Key resp) (UploadId resp)"

definition completeMultipartUpload ::
  "s3 \<Rightarrow> CreateMultipartUploadOutput \<Rightarrow> CompletedPart list \<Rightarrow> error option \<times> s3" where
  "completeMultipartUpload s resp completedParts =
     client_CompleteMultipartUpload s (Key resp) (UploadId resp) completedParts"

text \<open>The size of the buffer of \<open>StreamToFile\<close>: 5 MiB.\<close>

definition chunkSize :: nat where
  "chunkSize = 1024 * 1024 * 5"

text \<open>
  The loop of \<open>StreamToFileWithContext\<close>, from one \<open>Read\<close> to the next. It returns
  the error that ends the function, or the completed parts when the loop is left by
  \<open>break\<close>. The buffer has \<open>n\<close> bytes.
\<close>

function StreamToFile_loop ::
  "nat \<Rightarrow> s3 \<Rightarrow> CreateMultipartUploadOutput \<Rightarrow> string \<Rightarrow> reader \<Rightarrow> int \<Rightarrow> CompletedPart list
   \<Rightarrow> (error + CompletedPart list) \<times> s3" where
  "StreamToFile_loop n s resp path stream partNumber completedParts =
     (let r = stream_Read n stream; buf = fst (fst r); err = snd (fst r)
      in if err \<noteq> None \<and> err \<noteq> Some io_EOF then (Inl (the err), s)
         else if length buf = 0 then (Inr completedParts, s)
         else (case client_UploadPart s path (UploadId resp) partNumber buf of
                 (Inl uerr, s1) \<Rightarrow>
                   (case abortMultipartUpload s1 resp of
                      (Some abortErr, s2) \<Rightarrow> (Inl abortErr, s2)
                    | (None, s2) \<Rightarrow> (Inl uerr, s2))
               | (Inr etag, s1) \<Rightarrow>
                   StreamToFile_loop n s1 resp path (snd r) (partNumber + 1)
                     (completedParts @ [\<lparr>ETag = etag, PartNumber = partNumber\<rparr>])))"
  by pat_completeness auto
termination
proof (relation "measure (\<lambda>(n, s, resp, path, stream, partNumber, completedParts).
                            reader_size stream)")
  show "wf (measure (\<lambda>(n, s, resp, path, stream, partNumber, completedParts).
                       reader_size stream))"
    by simp
next
  fix n :: nat and s :: s3 and resp :: CreateMultipartUploadOutput and path :: string
    and stream :: reader and partNumber :: int and completedParts :: "CompletedPart list"
    and r buf err x y z
  assume r: "r = stream_Read n stream" and buf: "buf = fst (fst r)"
    and nonempty: "length buf \<noteq> 0"
  have "reader_size (snd r) < reader_size stream"
  proof (cases stream)
    case Nil
    with r buf nonempty show ?thesis by simp
  next
    case (Cons sg rest)
    obtain d e where sg: "sg = Segment d e" by (cases sg)
    show ?thesis
      using r buf nonempty Cons sg by (auto split: if_splits)
  qed
  then show "((n, y, resp, path, snd r, partNumber + 1,
               completedParts @ [\<lparr>ETag = z, PartNumber = partNumber\<rparr>]),
              n, s, resp, path, stream, partNumber, completedParts)
             \<in> measure (\<lambda>(n, s, resp, path, stream, partNumber, completedParts).
                          reader_size stream)"
    by simp
qed

declare StreamToFile_loop.simps [simp del]

definition S3_StreamToFileWithContext :: "s3 \<Rightarrow> reader \<Rightarrow> string \<Rightarrow> error option \<times> s3" where
  "S3_StreamToFileWithContext s stream path =
     (case client_CreateMultipartUpload s path of
        (Inl err, s1) \<Rightarrow> (Some err, s1)
      | (Inr resp, s1) \<Rightarrow>
          (case StreamToFile_loop chunkSize s1 resp path stream 1 [] of
             (Inl err, s2) \<Rightarrow> (Some err, s2)
           | (Inr completedParts, s2) \<Rightarrow> completeMultipartUpload s2 resp completedParts))"

definition S3_StreamToFile :: "s3 \<Rightarrow> reader \<Rightarrow> string \<Rightarrow> error option \<times> s3" where
  "S3_StreamToFile s stream path = S3_StreamToFileWithContext s stream path"

definition S3_FileReaderWithContext :: "s3 \<Rightarrow> string \<Rightarrow> int \<Rightarrow> int \<Rightarrow> error + bytes" where
  "S3_FileReaderWithContext s path offset length0 =
     (let range0 = (if length0 > 0 then bytes_from_to offset (wrap64 (offset + length0 - 1))
                    else bytes_from offset)
      in client_GetObject s path range0)"

definition S3_GetFileWithContext :: "s3 \<Rightarrow> string \<Rightarrow> error + bytes option" where
  "S3_GetFileWithContext s path =
     (case S3_FileReaderWithContext s path 0 0 of
        Inl err \<Rightarrow> Inl err
      | Inr stream \<Rightarrow> Inr (Some stream))"

definition S3_GetFile :: "s3 \<Rightarrow> string \<Rightarrow> error + bytes option" where
  "S3_GetFile s path = S3_GetFileWithContext s path"

definition S3_GetFilePartiallyWithContext ::
  "s3 \<Rightarrow> string \<Rightarrow> int \<Rightarrow> int \<Rightarrow> error + bytes option" where
  "S3_GetFilePartiallyWithContext s path offset length0 =
     (case S3_FileReaderWithContext s path offset length0 of
        Inl err \<Rightarrow> Inl err
      | Inr stream \<Rightarrow> Inr (Some stream))"

definition S3_GetFilePartially :: "s3 \<Rightarrow> string \<Rightarrow> int \<Rightarrow> int \<Rightarrow> error + bytes option" where
  "S3_GetFilePartially s path offset length0 =
     S3_GetFilePartiallyWithContext s path offset length0"

definition S3_StatWithContext :: "s3 \<Rightarrow> string \<Rightarrow> error + FileInfo \<times> gomap option" where
  "S3_StatWithContext s path =
     (case client_HeadObject s path of
        Inl err \<Rightarrow> Inl err
      | Inr out \<Rightarrow>
          Inr (\<lparr>Name = path, Size = int (length (Body out))\<rparr>, Some (Metadata out)))"

definition S3_Stat :: "s3 \<Rightarrow> string \<Rightarrow> error + FileInfo \<times> gomap option" where
  "S3_Stat s path = S3_StatWithContext s path"

section \<open>Concrete environments\<close>

text \<open>An environment that never fails, a file system with no file, a bucket with no
  object and no upload.\<close>

definition no_fault :: "'a \<Rightarrow> error option" where
  "no_fault x = None"

definition empty_store :: store where
  "empty_store = \<lparr>files = Map.empty, faults = no_fault\<rparr>"

definition empty_s3 :: s3 where
  "empty_s3 = \<lparr>objects = Map.empty, uploads = Map.empty, next_upload = 0,
               failing = no_fault, calls = []\<rparr>"



section \<open>What the chunked upload is to send\<close>

text \<open>
  The description of the upload that the loop is compared with. \<open>chunks n d\<close> cuts \<open>d\<close>
  into consecutive pieces of \<open>n\<close> bytes, the last one with what is left;
  \<open>chunked_reads n stream\<close> are these pieces for every segment of a source, in order, and
  \<open>numbered pn ds\<close> gives them the part numbers \<open>pn\<close>, \<open>pn + 1\<close>, and so on. A source is
  \<open>readable\<close> when every segment has bytes and none reports a failure.
\<close>

function chunks :: "nat \<Rightarrow> bytes \<Rightarrow> bytes list" where
  "chunks n d = (if n = 0 \<or> d = [] then [] else take n d # chunks n (drop n d))"
  by pat_completeness auto
termination
  by (relation "measure (\<lambda>(n, d). length d)") auto

declare chunks.simps [simp del]

definition chunked_reads :: "nat \<Rightarrow> reader \<Rightarrow> bytes list" where
  "chunked_reads n stream = concat (map (\<lambda>sg. chunks n (seg_bytes sg)) stream)"

fun numbered :: "int \<Rightarrow> bytes list \<Rightarrow> (int \<times> bytes) list" where
  "numbered pn [] = []"
| "numbered pn (d # ds) = (pn, d) # numbered (pn + 1) ds"

definition readable :: "reader \<Rightarrow> bool" where
  "readable stream =
     list_all (\<lambda>sg. seg_bytes sg \<noteq> [] \<and> (seg_error sg = None \<or> seg_error sg = Some io_EOF))
       stream"

text \<open>The part of a completed upload for a numbered piece, and the state of the service
  after it has received a sequence of pieces under consecutive numbers.\<close>

definition completed :: "int \<times> bytes \<Rightarrow> CompletedPart" where
  "completed p = \<lparr>ETag = snd p, PartNumber = fst p\<rparr>"

fun send_parts :: "s3 \<Rightarrow> string \<Rightarrow> nat \<Rightarrow> int \<Rightarrow> bytes list \<Rightarrow> s3" where
  "send_parts s path uid pn [] = s"
| "send_parts s path uid pn (d # ds) =
     send_parts (snd (client_UploadPart s path uid pn d)) path uid (pn + 1) ds"

section \<open>Properties of the codec\<close>


lemma bytes_Split_no_sep: "sep \<notin> set s \<Longrightarrow> bytes_Split sep s = [s]"
  by (induction s) auto

lemma bytes_Split_append:
  "sep \<notin> set l \<Longrightarrow> bytes_Split sep (l @ sep # rest) = l # bytes_Split sep rest"
  by (induction l) auto

lemma bytes2Meta_line_entry:
  assumes "codec_safe k" and "codec_safe v"
  shows "bytes2Meta_line m (k @ ''='' @ v) = m(k \<mapsto> v)"
proof -
  have "bytes_Split CHR ''='' (k @ CHR ''='' # v) = [k, v]"
    using assms by (simp add: bytes_Split_append bytes_Split_no_sep codec_safe_def)
  then show ?thesis
    by (simp add: bytes2Meta_line_def)
qed

lemma bytes_Split_meta2Bytes:
  assumes "codec_safe_map m" and "set ks \<subseteq> dom m"
  shows "bytes_Split newline (meta2Bytes ks m)
         = map (\<lambda>k. k @ CHR ''='' # the (m k)) ks @ [[]]"
  using assms(2)
proof (induction ks)
  case Nil
  then show ?case by (simp add: meta2Bytes_def)
next
  case (Cons k ks)
  then obtain v where v: "m k = Some v" by auto
  with assms(1) have safe: "codec_safe k" "codec_safe v"
    by (auto simp: codec_safe_map_def)
  then have "newline \<notin> set (k @ ''='' @ v)"
    by (simp add: codec_safe_def newline_def)
  then have "bytes_Split newline ((k @ ''='' @ v) @ newline # meta2Bytes ks m)
             = (k @ ''='' @ v) # bytes_Split newline (meta2Bytes ks m)"
    by (rule bytes_Split_append)
  moreover have "meta2Bytes (k # ks) m = (k @ ''='' @ v) @ newline # meta2Bytes ks m"
    by (simp add: meta2Bytes_def meta_line_def v)
  ultimately show ?case using Cons v by simp
qed

lemma foldl_bytes2Meta_line_entries:
  assumes "codec_safe_map m" and "set ks \<subseteq> dom m"
  shows "foldl bytes2Meta_line acc (map (\<lambda>k. k @ CHR ''='' # the (m k)) ks)
         = acc ++ (m |` set ks)"
  using assms(2)
proof (induction ks arbitrary: acc)
  case Nil
  then show ?case by simp
next
  case (Cons k ks)
  then obtain v where v: "m k = Some v" by auto
  with assms(1) have safe: "codec_safe k" "codec_safe v"
    by (auto simp: codec_safe_map_def)
  have step: "bytes2Meta_line acc (k @ CHR ''='' # the (m k)) = acc(k \<mapsto> v)"
    using bytes2Meta_line_entry [OF safe] v by simp
  have "foldl bytes2Meta_line acc (map (\<lambda>k. k @ CHR ''='' # the (m k)) (k # ks))
        = (acc(k \<mapsto> v)) ++ (m |` set ks)"
    using Cons step by simp
  also have "\<dots> = acc ++ (m |` set (k # ks))"
    by (rule ext) (auto simp: map_add_def restrict_map_def v split: option.splits)
  finally show ?case .
qed

lemma bytes2Meta_meta2Bytes:
  assumes "codec_safe_map m" and "set ks = dom m"
  shows "bytes2Meta (meta2Bytes ks m) = m"
proof -
  have sub: "set ks \<subseteq> dom m" using assms(2) by simp
  have "bytes2Meta (meta2Bytes ks m)
        = bytes2Meta_line (Map.empty ++ (m |` set ks)) []"
    by (simp add: bytes2Meta_def bytes_Split_meta2Bytes [OF assms(1) sub]
        foldl_bytes2Meta_line_entries [OF assms(1) sub])
  also have "\<dots> = m |` dom m"
    by (simp add: bytes2Meta_line_def assms(2))
  also have "\<dots> = m"
    by (rule ext) (simp add: restrict_map_def domIff)
  finally show ?thesis .
qed

text \<open>
  C9. For every string-to-string mapping whose keys and values contain neither \<open>=\<close> nor a
  newline, and for every order in which \<open>range\<close> may enumerate it, decoding the encoding
  gives the mapping back: \<open>bytes2Meta (meta2Bytes m) = m\<close>.
\<close>

theorem meta_codec_round_trip:
  "codec_safe_map m \<Longrightarrow> range_order ks m \<Longrightarrow> bytes2Meta (meta2Bytes ks m) = m"
  by (simp add: range_order_def bytes2Meta_meta2Bytes)

theorem meta_codec_round_trip_witness:
  "codec_safe_map [''owner'' \<mapsto> ''bob'']
   \<and> range_order [''owner''] [''owner'' \<mapsto> ''bob'']
   \<and> bytes2Meta (meta2Bytes [''owner''] [''owner'' \<mapsto> ''bob'']) = [''owner'' \<mapsto> ''bob'']"
proof -
  have h1: "codec_safe_map [''owner'' \<mapsto> ''bob'']"
    by (simp add: codec_safe_map_def codec_safe_def newline_def)
  have h2: "range_order [''owner''] [''owner'' \<mapsto> ''bob'']"
    by (simp add: range_order_def)
  show ?thesis using h1 h2 meta_codec_round_trip [OF h1 h2] by simp
qed

section \<open>Existence, reading and creation on the local and WebDav backends\<close>

lemma META_PREFIX_not_Nil: "META_PREFIX \<noteq> []"
  by (simp add: META_PREFIX_def)

text \<open>
  C7. On the local and the WebDav backend, \<open>IsExist\<close> is true exactly when the path is
  present (the stat call succeeds) and reports a size that is not zero; for a file that
  is there with no content it is false.
\<close>

theorem IsExist_iff_present_nonempty:
  "(Local_IsExist st p \<longleftrightarrow> (\<exists>info. os_Stat st p = Inr info \<and> Size info \<noteq> 0))
   \<and> (WebDav_IsExist st p \<longleftrightarrow> (\<exists>info. client_Stat st p = Inr info \<and> Size info \<noteq> 0))
   \<and> (files st p = Some [] \<longrightarrow> \<not> Local_IsExist st p \<and> \<not> WebDav_IsExist st p)"
  by (auto simp: Local_IsExist_def WebDav_IsExist_def os_Stat_def client_Stat_def
      split: option.splits sum.splits)

theorem IsExist_iff_present_nonempty_witness:
  "files (empty_store\<lparr>files := [''p'' \<mapsto> []]\<rparr>) ''p'' = Some []
   \<and> \<not> Local_IsExist (empty_store\<lparr>files := [''p'' \<mapsto> []]\<rparr>) ''p''
   \<and> \<not> WebDav_IsExist (empty_store\<lparr>files := [''p'' \<mapsto> []]\<rparr>) ''p''
   \<and> Local_IsExist (empty_store\<lparr>files := [''p'' \<mapsto> ''hello'']\<rparr>) ''p''
   \<and> WebDav_IsExist (empty_store\<lparr>files := [''p'' \<mapsto> ''hello'']\<rparr>) ''p''"
  using IsExist_iff_present_nonempty [of "empty_store\<lparr>files := [''p'' \<mapsto> []]\<rparr>" "''p''"]
    IsExist_iff_present_nonempty [of "empty_store\<lparr>files := [''p'' \<mapsto> ''hello'']\<rparr>" "''p''"]
  by (simp add: empty_store_def no_fault_def os_Stat_def client_Stat_def)

text \<open>
  C10. \<open>FileReader\<close> of the local backend does not look at \<open>offset\<close> and \<open>length\<close>:
  its result is the same for all their values. For a file that is there and not empty
  it is the file opened at byte 0, from which the whole content is read; for a path
  that is absent or a file that is empty it is a nil reader with a nil error.
\<close>

theorem Local_FileReader_ignores_range:
  "Local_FileReader st path offset length0 = Local_FileReader st path offset' length1
   \<and> (faults st path = None \<and> files st path = Some c \<and> c \<noteq> [] \<longrightarrow>
        Local_FileReader st path offset length0 = Inr (Some \<lparr>file_path = path, file_pos = 0\<rparr>)
        \<and> File_rest st \<lparr>file_path = path, file_pos = 0\<rparr> = c)
   \<and> (files st path = None \<or> files st path = Some [] \<longrightarrow>
        Local_FileReader st path offset length0 = Inr None)"
  by (auto simp: Local_FileReader_def Local_IsExist_def os_Stat_def os_Open_def File_rest_def
      split: option.splits sum.splits)

theorem Local_FileReader_ignores_range_witness:
  "Local_FileReader (empty_store\<lparr>files := [''p'' \<mapsto> ''hello'']\<rparr>) ''p'' 2 3
     = Local_FileReader (empty_store\<lparr>files := [''p'' \<mapsto> ''hello'']\<rparr>) ''p'' 0 (-1)
   \<and> Local_FileReader (empty_store\<lparr>files := [''p'' \<mapsto> ''hello'']\<rparr>) ''p'' 2 3
     = Inr (Some \<lparr>file_path = ''p'', file_pos = 0\<rparr>)
   \<and> File_rest (empty_store\<lparr>files := [''p'' \<mapsto> ''hello'']\<rparr>) \<lparr>file_path = ''p'', file_pos = 0\<rparr>
     = ''hello''
   \<and> Local_FileReader empty_store ''p'' 2 3 = Inr None"
  using Local_FileReader_ignores_range
          [of "empty_store\<lparr>files := [''p'' \<mapsto> ''hello'']\<rparr>" "''p''" 2 3 0 "-1" "''hello''"]
        Local_FileReader_ignores_range [of empty_store "''p''" 2 3 0 0 "[]"]
  by (auto simp: empty_store_def no_fault_def)

text \<open>
  C6, as the claim states it, fails: \<open>GetFile\<close> of the local backend on a path that is
  absent returns a nil content and no error.
\<close>

theorem GetFile_absent_counterexample:
  "files empty_store ''p'' = None \<and> Local_GetFile empty_store ''p'' = Inr None"
  by (simp add: empty_store_def no_fault_def Local_GetFile_def Local_IsExist_def os_Stat_def)

text \<open>
  C6, amended. \<open>GetFile\<close> of a path that is absent returns a nil content and a nil error
  on the local, the WebDav and the null backend; on the S3 backend it returns an error,
  the one of the \<open>GetObject\<close> call, which is the service's \<open>NoSuchKey\<close> when nothing
  else fails.
\<close>

theorem GetFile_absent:
  "(files st path = None \<longrightarrow>
      Local_GetFile st path = Inr None \<and> WebDav_GetFile st path = Inr None)
   \<and> Empty_GetFile path = Inr None
   \<and> (objects s path = None \<and> failing s (GetObject path) = None \<longrightarrow>
        S3_GetFile s path = Inl (OtherError ''NoSuchKey''))
   \<and> (objects s path = None \<longrightarrow> (\<exists>e. S3_GetFile s path = Inl e))"
  by (auto simp: Local_GetFile_def WebDav_GetFile_def Local_IsExist_def WebDav_IsExist_def
      os_Stat_def client_Stat_def Empty_GetFile_def S3_GetFile_def S3_GetFileWithContext_def
      S3_FileReaderWithContext_def client_GetObject_def
      split: option.splits sum.splits)

theorem GetFile_absent_witness:
  "files empty_store ''p'' = None
   \<and> Local_GetFile empty_store ''p'' = Inr None
   \<and> WebDav_GetFile empty_store ''p'' = Inr None
   \<and> objects empty_s3 ''p'' = None \<and> failing empty_s3 (GetObject ''p'') = None
   \<and> S3_GetFile empty_s3 ''p'' = Inl (OtherError ''NoSuchKey'')"
  using GetFile_absent [of empty_store "''p''" empty_s3]
  by (simp add: empty_store_def empty_s3_def no_fault_def)

text \<open>
  C3, as the claim states it, fails on the WebDav backend: \<open>CreateFile\<close> with a metadata
  mapping writes the primary content too.
\<close>

theorem CreateFile_with_metadata_counterexample:
  "files (snd (WebDav_CreateFile empty_store ''p'' ''hello'' (Some [''owner'' \<mapsto> ''bob''])
                 [''owner''])) ''p'' = Some ''hello''"
  by (simp add: WebDav_CreateFile_def client_Write_def empty_store_def no_fault_def
      META_PREFIX_def)

text \<open>
  C3, amended. With a metadata mapping that is not nil, \<open>CreateFile\<close> of the local backend
  writes the sidecar record at \<open>path + ".meta"\<close> and nothing else: the primary content
  is not written in that call. \<open>CreateFile\<close> of the WebDav backend writes the sidecar
  record and then, the first write having succeeded, the primary content as well.
\<close>

theorem CreateFile_with_metadata:
  "(faults st (path @ META_PREFIX) = None \<longrightarrow>
      Local_CreateFile st path file (Some m) ks
        = (None, st\<lparr>files := (files st)(path @ META_PREFIX \<mapsto> meta2Bytes ks m)\<rparr>)
      \<and> files (snd (Local_CreateFile st path file (Some m) ks)) path = files st path)
   \<and> (faults st (path @ META_PREFIX) = None \<and> faults st path = None \<longrightarrow>
        WebDav_CreateFile st path file (Some m) ks
          = (None, st\<lparr>files := (files st)(path @ META_PREFIX \<mapsto> meta2Bytes ks m,
                                            path \<mapsto> file)\<rparr>))"
  by (simp add: Local_CreateFile_def WebDav_CreateFile_def os_WriteFile_def client_Write_def
      entries_def META_PREFIX_not_Nil)

theorem CreateFile_with_metadata_witness:
  "faults empty_store (''p'' @ META_PREFIX) = None \<and> faults empty_store ''p'' = None
   \<and> files (snd (Local_CreateFile empty_store ''p'' ''hello'' (Some [''owner'' \<mapsto> ''bob''])
                   [''owner''])) ''p'' = None
   \<and> WebDav_CreateFile empty_store ''p'' ''hello'' (Some [''owner'' \<mapsto> ''bob'']) [''owner'']
       = (None, empty_store\<lparr>files := (files empty_store)
            (''p'' @ META_PREFIX \<mapsto> meta2Bytes [''owner''] [''owner'' \<mapsto> ''bob''],
             ''p'' \<mapsto> ''hello'')\<rparr>)"
  using CreateFile_with_metadata
          [of empty_store "''p''" "''hello''" "[''owner'' \<mapsto> ''bob'']" "[''owner'']"]
  by (simp add: empty_store_def no_fault_def META_PREFIX_def)

section \<open>Partial reads\<close>

lemma wrap64_id: "- (2 ^ 63) \<le> x \<Longrightarrow> x < 2 ^ 63 \<Longrightarrow> wrap64 x = x"
  by (simp add: wrap64_def)

lemma Local_GetFile_no_fault:
  "faults st p = None \<Longrightarrow>
   Local_GetFile st p
     = Inr (case files st p of None \<Rightarrow> None | Some c \<Rightarrow> if c = [] then None else Some c)"
  by (simp add: Local_GetFile_def Local_IsExist_def os_Stat_def os_ReadFile_def
      split: option.splits)

lemma Local_Stat_no_fault:
  "faults st p = None \<Longrightarrow> faults st (p @ META_PREFIX) = None \<Longrightarrow> files st p = Some c \<Longrightarrow>
   Local_Stat st p
     = Inr (\<lparr>Name = basename p, Size = int (length c)\<rparr>,
            Some (bytes2Meta (case files st (p @ META_PREFIX) of None \<Rightarrow> [] | Some b \<Rightarrow> b)))"
  by (simp add: Local_Stat_def os_Stat_def Local_GetFile_no_fault split: option.splits)

lemma Local_GetFilePartially_negative:
  assumes "faults st path = None" and "faults st (path @ META_PREFIX) = None"
    and "files st path = Some c" and "c \<noteq> []" and "int (length c) < 2 ^ 63"
    and "length0 < 0" and "0 \<le> offset" and "offset \<le> int (length c)"
  shows "Local_GetFilePartially st path offset length0 = Inr (Some (drop (nat offset) c))"
proof -
  have ex: "Local_IsExist st path"
    using assms by (simp add: Local_IsExist_def os_Stat_def)
  have opn: "os_Open st path = Inr \<lparr>file_path = path, file_pos = 0\<rparr>"
    using assms by (simp add: os_Open_def)
  obtain md where stat:
    "Local_Stat st path = Inr (\<lparr>Name = basename path, Size = int (length c)\<rparr>, md)"
    using assms by (simp add: Local_Stat_no_fault)
  have w: "wrap64 (int (length c) - offset) = int (length c) - offset"
    using assms by (intro wrap64_id) auto
  have rd: "File_ReadAt st \<lparr>file_path = path, file_pos = 0\<rparr> (nat (int (length c) - offset)) offset
            = (drop (nat offset) c, None)"
    using assms by (auto simp: File_ReadAt_def Let_def nat_diff_distrib)
  show ?thesis
    using assms(6,7,8) ex opn stat w rd
    by (simp add: Local_GetFilePartially_def)
qed

lemma Local_GetFilePartially_zero:
  assumes "faults st path = None" and "files st path = Some c" and "c \<noteq> []" and "0 \<le> offset"
  shows "Local_GetFilePartially st path offset 0 = Inr (Some [])"
  using assms
  by (simp add: Local_GetFilePartially_def Local_IsExist_def os_Stat_def os_Open_def
      File_ReadAt_def)

lemma S3_GetFilePartially_nonpositive:
  assumes "failing s (GetObject path) = None" and "objects s path = Some obj"
    and "length0 \<le> 0" and "0 \<le> offset" and "offset < int (length (Body obj))"
  shows "S3_GetFilePartially s path offset length0 = Inr (Some (drop (nat offset) (Body obj)))"
  using assms
  by (simp add: S3_GetFilePartially_def S3_GetFilePartiallyWithContext_def
      S3_FileReaderWithContext_def client_GetObject_def)

text \<open>
  C8, as the claim states it, fails on the local backend: with the length 0, which is
  not positive, \<open>GetFilePartially\<close> on the file \<open>hello\<close> at offset 2 returns no bytes,
  not the bytes \<open>llo\<close> from the offset to the end.
\<close>

theorem GetFilePartially_to_end_counterexample:
  "Local_GetFilePartially (empty_store\<lparr>files := [''p'' \<mapsto> ''hello'']\<rparr>) ''p'' 2 0
     = Inr (Some [])
   \<and> drop 2 ''hello'' = ''llo''"
  by (simp add: Local_GetFilePartially_def Local_IsExist_def os_Stat_def os_Open_def
      File_ReadAt_def empty_store_def no_fault_def)

text \<open>
  C8, amended. On the S3 backend, \<open>GetFilePartially\<close> with a length that is not positive,
  on an object that exists and at an offset inside it, returns the bytes from the offset
  to the end of the object. On the local backend the same holds for a length that is
  strictly negative, on a file that is not empty and at an offset from 0 to its size;
  with the length 0 the local backend returns an empty byte sequence.
\<close>

theorem GetFilePartially_to_end:
  "(failing s (GetObject path) = None \<and> objects s path = Some obj
      \<and> length0 \<le> 0 \<and> 0 \<le> offset \<and> offset < int (length (Body obj)) \<longrightarrow>
      S3_GetFilePartially s path offset length0 = Inr (Some (drop (nat offset) (Body obj))))
   \<and> (faults st path = None \<and> faults st (path @ META_PREFIX) = None
      \<and> files st path = Some c \<and> c \<noteq> [] \<and> int (length c) < 2 ^ 63
      \<and> length0 < 0 \<and> 0 \<le> offset \<and> offset \<le> int (length c) \<longrightarrow>
      Local_GetFilePartially st path offset length0 = Inr (Some (drop (nat offset) c)))
   \<and> (faults st path = None \<and> files st path = Some c \<and> c \<noteq> [] \<and> 0 \<le> offset \<longrightarrow>
      Local_GetFilePartially st path offset 0 = Inr (Some []))"
  using S3_GetFilePartially_nonpositive Local_GetFilePartially_negative
    Local_GetFilePartially_zero
  by blast

theorem GetFilePartially_to_end_witness:
  "S3_GetFilePartially (empty_s3\<lparr>objects := [''p'' \<mapsto> \<lparr>Body = ''hello'', Metadata = Map.empty\<rparr>]\<rparr>)
     ''p'' 2 0 = Inr (Some ''llo'')
   \<and> Local_GetFilePartially (empty_store\<lparr>files := [''p'' \<mapsto> ''hello'']\<rparr>) ''p'' 2 (-1)
     = Inr (Some ''llo'')
   \<and> Local_GetFilePartially (empty_store\<lparr>files := [''p'' \<mapsto> ''hello'']\<rparr>) ''p'' 2 0
     = Inr (Some [])"
  using GetFilePartially_to_end
          [of "empty_s3\<lparr>objects := [''p'' \<mapsto> \<lparr>Body = ''hello'', Metadata = Map.empty\<rparr>]\<rparr>"
              "''p''" "\<lparr>Body = ''hello'', Metadata = Map.empty\<rparr>" 0 2
              "empty_store\<lparr>files := [''p'' \<mapsto> ''hello'']\<rparr>" "''hello''"]
        GetFilePartially_to_end
          [of "empty_s3\<lparr>objects := [''p'' \<mapsto> \<lparr>Body = ''hello'', Metadata = Map.empty\<rparr>]\<rparr>"
              "''p''" "\<lparr>Body = ''hello'', Metadata = Map.empty\<rparr>" "-1" 2
              "empty_store\<lparr>files := [''p'' \<mapsto> ''hello'']\<rparr>" "''hello''"]
  by (simp add: empty_store_def empty_s3_def no_fault_def META_PREFIX_def)

section \<open>The chunked upload: errors\<close>

text \<open>
  The two ways in which the loop of \<open>StreamToFile\<close> ends with an error. When a part is
  refused, the upload is aborted, and the error of the abort call, if there is one, is
  returned in place of the error of the part. When the source fails, the function
  returns at once: the service is not called, and the state is the one before the read.
\<close>

lemma StreamToFile_loop_upload_error:
  assumes "stream_Read n stream = ((buf, err), rest)"
    and "err = None \<or> err = Some io_EOF" and "buf \<noteq> []"
    and "client_UploadPart s path (UploadId resp) partNumber buf = (Inl uerr, s1)"
  shows "StreamToFile_loop n s resp path stream partNumber completedParts
         = (case abortMultipartUpload s1 resp of
              (Some abortErr, s2) \<Rightarrow> (Inl abortErr, s2)
            | (None, s2) \<Rightarrow> (Inl uerr, s2))"
  using assms by (subst StreamToFile_loop.simps) (auto simp: Let_def)

lemma StreamToFile_loop_read_error:
  assumes "stream_Read n stream = ((buf, Some e), rest)" and "e \<noteq> io_EOF"
  shows "StreamToFile_loop n s resp path stream partNumber completedParts = (Inl e, s)"
  using assms by (subst StreamToFile_loop.simps) (simp add: Let_def)

text \<open>
  C2: the code breaks the claim where the source fails. On a bucket with nothing in it
  and a source whose first \<open>Read\<close> fails, \<open>StreamToFile\<close> returns the error of the
  source, and the only call that the service has received is the one that opened the
  upload: there is no abort, and the upload is still open.
\<close>

theorem StreamToFile_read_error_no_abort:
  "S3_StreamToFile empty_s3 [Segment [] (Some (OtherError ''read failed''))] ''k''
     = (Some (OtherError ''read failed''),
        empty_s3\<lparr>uploads := [0 \<mapsto> \<lparr>upload_Key = ''k'', upload_parts = Map.empty\<rparr>],
                next_upload := 1,
                calls := [CreateMultipartUpload ''k'']\<rparr>)"
  by (simp add: S3_StreamToFile_def S3_StreamToFileWithContext_def StreamToFile_loop.simps
      client_CreateMultipartUpload_def empty_s3_def no_fault_def Let_def)

section \<open>Metadata through the S3 client\<close>

lemma to_lower_idem: "to_lower (to_lower c) = to_lower c"
  by (simp add: to_lower_def lower_letters_def upper_letters_def)

lemma to_upper_lower: "to_upper (to_lower c) = to_upper c"
  by (simp add: to_lower_def to_upper_def lower_letters_def upper_letters_def)

lemma to_lower_hyphen: "to_lower c = CHR ''-'' \<longleftrightarrow> c = CHR ''-''"
  by (simp add: to_lower_def lower_letters_def upper_letters_def)

lemma canonical_from_lower: "canonical_from b (map to_lower k) = canonical_from b k"
  by (induction k arbitrary: b) (simp_all add: to_lower_idem to_upper_lower to_lower_hyphen)

lemma canonical_lower_key: "canonical_key (lower_key k) = canonical_key k"
  by (simp add: canonical_key_def lower_key_def canonical_from_lower)

text \<open>Two keys in canonical form that the service keeps under one key are one key.\<close>

lemma lower_key_canonical_inj:
  assumes "canonical_key k = k" and "canonical_key k' = k'" and "lower_key k = lower_key k'"
  shows "k = k'"
proof -
  have "canonical_key k = canonical_key (lower_key k)"
    by (simp add: canonical_lower_key)
  also have "\<dots> = canonical_key k'"
    using assms(3) by (simp add: canonical_lower_key)
  finally show ?thesis using assms(1,2) by simp
qed

lemma sent_metadata_other:
  assumes "\<forall>k \<in> set ks. m k \<noteq> None \<longrightarrow> lower_key (trim_space k) \<noteq> l"
  shows "sent_metadata ks m l = None"
  using assms by (induction ks) (auto simp: sent_metadata_def split: option.splits)

lemma sent_metadata_key:
  assumes "header_safe_map m" and "m k = Some v" and "k \<in> set ks"
  shows "sent_metadata ks m (lower_key k) = Some v"
  using assms(3)
proof (induction ks)
  case Nil
  then show ?case by simp
next
  case (Cons a ks)
  have kv: "canonical_key k = k" "trim_space k = k" "trim_space v = v"
    using assms(1,2) by (auto simp: header_safe_map_def)
  show ?case
  proof (cases "m a")
    case None
    with assms(2) have "a \<noteq> k" by auto
    with Cons None show ?thesis by (simp add: sent_metadata_def)
  next
    case (Some w)
    then have a: "canonical_key a = a" "trim_space a = a" "trim_space w = w"
      using assms(1) by (auto simp: header_safe_map_def)
    show ?thesis
    proof (cases "a = k")
      case True
      with Some assms(2) kv show ?thesis by (simp add: sent_metadata_def)
    next
      case False
      then have "k \<in> set ks" using Cons.prems by simp
      moreover have "lower_key a \<noteq> lower_key k"
        using lower_key_canonical_inj [OF a(1) kv(1)] False by blast
      ultimately show ?thesis
        using Cons.IH Some a by (simp add: sent_metadata_def)
    qed
  qed
qed

text \<open>A mapping that travels unchanged comes back as it was sent.\<close>

lemma received_sent_metadata:
  assumes "header_safe_map m" and "set ks = dom m"
  shows "received_metadata (sent_metadata ks m) = m"
proof (rule ext)
  fix k
  show "received_metadata (sent_metadata ks m) k = m k"
  proof (cases "m k")
    case (Some v)
    then have "canonical_key k = k" and "k \<in> set ks"
      using assms by (auto simp: header_safe_map_def)
    with Some show ?thesis
      by (simp add: received_metadata_def sent_metadata_key [OF assms(1) Some])
  next
    case None
    show ?thesis
    proof (cases "canonical_key k = k")
      case False
      with None show ?thesis by (simp add: received_metadata_def)
    next
      case True
      have "lower_key (trim_space a) \<noteq> lower_key k" if "a \<in> set ks" and "m a \<noteq> None" for a
      proof -
        from that obtain w where w: "m a = Some w" by auto
        then have a: "canonical_key a = a" "trim_space a = a"
          using assms(1) by (auto simp: header_safe_map_def)
        from w None have "a \<noteq> k" by auto
        with lower_key_canonical_inj [OF a(1) True] a(2) show ?thesis by auto
      qed
      then have "sent_metadata ks m (lower_key k) = None"
        by (intro sent_metadata_other) blast
      with None True show ?thesis by (simp add: received_metadata_def)
    qed
  qed
qed

lemma text_char_value: "text_char c \<Longrightarrow> value_char c"
  by (simp add: text_char_def value_char_def)

lemma header_safe_ok:
  assumes "header_safe_map m"
  shows "header_ok ks m"
  using assms
  by (auto simp: header_ok_def header_safe_map_def list_all_iff text_char_value
      split: option.splits)


section \<open>Metadata after creation\<close>

lemma meta_line_not_Nil: "m k = Some v \<Longrightarrow> meta_line m k \<noteq> []"
  by (simp add: meta_line_def)

lemma meta2Bytes_empty: "meta2Bytes ks Map.empty = []"
  by (simp add: meta2Bytes_def meta_line_def)

lemma meta2Bytes_eq_Nil:
  assumes "set ks = dom m"
  shows "meta2Bytes ks m = [] \<longleftrightarrow> m = Map.empty"
proof
  assume nil: "meta2Bytes ks m = []"
  have "m k = None" for k
  proof (cases "m k")
    case None
    then show ?thesis .
  next
    case (Some v)
    then have "k \<in> set ks" using assms by auto
    then have "meta_line m k = []"
      using nil by (simp add: meta2Bytes_def)
    with Some show ?thesis by (simp add: meta_line_def)
  qed
  then show "m = Map.empty" by (simp add: fun_eq_iff)
next
  assume "m = Map.empty"
  then show "meta2Bytes ks m = []"
    by (simp add: meta2Bytes_empty)
qed

lemma path_not_sidecar: "p @ META_PREFIX \<noteq> p" "p \<noteq> p @ META_PREFIX"
  by (simp_all add: META_PREFIX_def)

lemma WebDav_CreateFile_Stat:
  assumes "codec_safe_map m" and "range_order ks m"
    and "faults st path = None" and "faults st (path @ META_PREFIX) = None"
  shows "fst (WebDav_CreateFile st path file (Some m) ks) = None
         \<and> WebDav_Stat (snd (WebDav_CreateFile st path file (Some m) ks)) path
             = Inr (\<lparr>Name = basename path, Size = int (length file)\<rparr>,
                    if m = Map.empty then None else Some m)"
proof -
  let ?enc = "meta2Bytes ks m"
  let ?st' = "st\<lparr>files := (files st)(path @ META_PREFIX \<mapsto> ?enc, path \<mapsto> file)\<rparr>"
  have cr: "WebDav_CreateFile st path file (Some m) ks = (None, ?st')"
    using assms(3,4)
    by (simp add: WebDav_CreateFile_def client_Write_def entries_def)
  have dec: "bytes2Meta ?enc = m"
    using assms(1,2) by (simp add: bytes2Meta_meta2Bytes range_order_def)
  have nil: "?enc = [] \<longleftrightarrow> m = Map.empty"
    using assms(2) by (simp add: meta2Bytes_eq_Nil range_order_def)
  have "WebDav_Stat ?st' path
        = Inr (\<lparr>Name = basename path, Size = int (length file)\<rparr>,
               if m = Map.empty then None else Some m)"
    using assms(3,4) dec nil
    by (simp add: WebDav_Stat_def client_Stat_def WebDav_IsExist_def client_Read_def
        META_PREFIX_not_Nil meta2Bytes_empty)
  with cr show ?thesis by simp
qed

text \<open>What \<open>Stat\<close> of the S3 backend returns after \<open>CreateFile\<close>, for every
  metadata that can be sent, and for the metadata that travels unchanged.\<close>

lemma S3_CreateFile_Stat_received:
  assumes "header_ok ks m"
    and "failing s (PutObject path) = None" and "failing s (HeadObject path) = None"
  shows "fst (S3_CreateFile s path file (Some m) ks) = None
         \<and> S3_Stat (snd (S3_CreateFile s path file (Some m) ks)) path
             = Inr (\<lparr>Name = path, Size = int (length file)\<rparr>,
                    Some (received_metadata (sent_metadata ks m)))"
  using assms
  by (simp add: S3_CreateFile_def S3_CreateFileWithContext_def client_PutObject_def Let_def
      S3_Stat_def S3_StatWithContext_def client_HeadObject_def entries_def)

lemma S3_CreateFile_Stat:
  assumes "header_safe_map m" and "range_order ks m"
    and "failing s (PutObject path) = None" and "failing s (HeadObject path) = None"
  shows "fst (S3_CreateFile s path file (Some m) ks) = None
         \<and> S3_Stat (snd (S3_CreateFile s path file (Some m) ks)) path
             = Inr (\<lparr>Name = path, Size = int (length file)\<rparr>, Some m)"
proof -
  have "received_metadata (sent_metadata ks m) = m"
    using assms(1,2) by (simp add: received_sent_metadata range_order_def)
  with S3_CreateFile_Stat_received [OF header_safe_ok [OF assms(1)] assms(3,4), of "file"]
  show ?thesis by simp
qed

text \<open>
  C4, as the claim states it, fails on three backends. On the local backend \<open>CreateFile\<close>
  with metadata writes the sidecar record only, so \<open>Stat\<close> of a path that was not there
  before returns the error \<open>ErrFileNotFound\<close>. On the null backend \<open>CreateFile\<close> does
  nothing and \<open>Stat\<close> returns no metadata. On the S3 backend the key \<open>owner\<close> comes
  back as \<open>Owner\<close>: the mapping that \<open>Stat\<close> returns has nothing under \<open>owner\<close>.
\<close>

theorem CreateFile_then_Stat_counterexample:
  "Local_Stat (snd (Local_CreateFile empty_store ''p'' ''hello'' (Some [''owner'' \<mapsto> ''bob''])
                      [''owner''])) ''p'' = Inl ErrFileNotFound
   \<and> Empty_CreateFile ''p'' ''hello'' (Some [''owner'' \<mapsto> ''bob'']) = None
   \<and> Empty_Stat ''p'' = Inr (None, None)
   \<and> map_sum id (\<lambda>r. (entries (snd r) ''owner'', entries (snd r) ''Owner''))
         (S3_Stat (snd (S3_CreateFile empty_s3 ''p'' ''hello'' (Some [''owner'' \<mapsto> ''bob''])
                          [''owner''])) ''p'')
       = Inr (None, Some ''bob'')"
proof -
  have "Local_Stat (snd (Local_CreateFile empty_store ''p'' ''hello''
                           (Some [''owner'' \<mapsto> ''bob'']) [''owner''])) ''p''
        = Inl ErrFileNotFound"
    by (simp add: Local_CreateFile_def os_WriteFile_def Local_Stat_def os_Stat_def
        os_IsNotExist_def empty_store_def no_fault_def META_PREFIX_def)
  moreover have "header_ok [''owner''] [''owner'' \<mapsto> ''bob'']"
    by (simp add: header_ok_def trim_space_def space_char_def token_char_def value_char_def
        lower_letters_def upper_letters_def)
  then have "S3_Stat (snd (S3_CreateFile empty_s3 ''p'' ''hello'' (Some [''owner'' \<mapsto> ''bob''])
                             [''owner''])) ''p''
             = Inr (\<lparr>Name = ''p'', Size = int (length ''hello'')\<rparr>,
                    Some (received_metadata (sent_metadata [''owner''] [''owner'' \<mapsto> ''bob''])))"
    by (intro conjunct2 [OF S3_CreateFile_Stat_received])
       (simp_all add: empty_s3_def no_fault_def)
  moreover have "received_metadata (sent_metadata [''owner''] [''owner'' \<mapsto> ''bob'']) ''owner''
                 = None"
    and "received_metadata (sent_metadata [''owner''] [''owner'' \<mapsto> ''bob'']) ''Owner''
         = Some ''bob''"
    by (simp_all add: received_metadata_def sent_metadata_def canonical_key_def lower_key_def
        trim_space_def space_char_def to_upper_def to_lower_def lower_letters_def
        upper_letters_def)
  ultimately show ?thesis
    by (simp add: Empty_CreateFile_def Empty_Stat_def entries_def)
qed

text \<open>
  C4, amended. On the WebDav backend, for every path, content and metadata mapping whose
  keys and values contain neither \<open>=\<close> nor a newline, \<open>CreateFile\<close> followed by \<open>Stat\<close>
  of the path succeeds, where the environment does not fail, and returns that mapping
  (a nil mapping when the mapping has no entry). On the S3 backend it succeeds and
  returns that mapping for every mapping that travels unchanged as headers: its keys are
  header names in canonical form (the first letter and every letter after a hyphen in
  upper case, every other letter in lower case), its values are printable ASCII text
  with no white space at either end. On the null backend \<open>Stat\<close> returns no metadata.
\<close>

theorem CreateFile_then_Stat_metadata:
  "(codec_safe_map m \<and> range_order ks m
      \<and> faults st path = None \<and> faults st (path @ META_PREFIX) = None \<longrightarrow>
      fst (WebDav_CreateFile st path file (Some m) ks) = None
      \<and> WebDav_Stat (snd (WebDav_CreateFile st path file (Some m) ks)) path
          = Inr (\<lparr>Name = basename path, Size = int (length file)\<rparr>,
                 if m = Map.empty then None else Some m))
   \<and> (header_safe_map m \<and> range_order ks m
      \<and> failing s (PutObject path) = None \<and> failing s (HeadObject path) = None \<longrightarrow>
      fst (S3_CreateFile s path file (Some m) ks) = None
      \<and> S3_Stat (snd (S3_CreateFile s path file (Some m) ks)) path
          = Inr (\<lparr>Name = path, Size = int (length file)\<rparr>, Some m))
   \<and> Empty_Stat path = Inr (None, None)"
  using WebDav_CreateFile_Stat [of m ks st path "file"] S3_CreateFile_Stat [of m ks s path "file"]
  by (simp add: Empty_Stat_def)

theorem CreateFile_then_Stat_metadata_witness:
  "codec_safe_map [''Owner'' \<mapsto> ''bob''] \<and> range_order [''Owner''] [''Owner'' \<mapsto> ''bob'']
   \<and> header_safe_map [''Owner'' \<mapsto> ''bob'']
   \<and> WebDav_Stat (snd (WebDav_CreateFile empty_store ''d/p'' ''hello''
                          (Some [''Owner'' \<mapsto> ''bob'']) [''Owner''])) ''d/p''
       = Inr (\<lparr>Name = ''p'', Size = 5\<rparr>, Some [''Owner'' \<mapsto> ''bob''])
   \<and> S3_Stat (snd (S3_CreateFile empty_s3 ''d/p'' ''hello'' (Some [''Owner'' \<mapsto> ''bob''])
                      [''Owner''])) ''d/p''
       = Inr (\<lparr>Name = ''d/p'', Size = 5\<rparr>, Some [''Owner'' \<mapsto> ''bob''])"
proof -
  have h1: "codec_safe_map [''Owner'' \<mapsto> ''bob'']"
    by (simp add: codec_safe_map_def codec_safe_def newline_def)
  have h2: "range_order [''Owner''] [''Owner'' \<mapsto> ''bob'']"
    by (simp add: range_order_def)
  have h3: "faults empty_store ''d/p'' = None \<and> faults empty_store (''d/p'' @ META_PREFIX) = None"
    by (simp add: empty_store_def no_fault_def)
  have h4: "failing empty_s3 (PutObject ''d/p'') = None
            \<and> failing empty_s3 (HeadObject ''d/p'') = None"
    by (simp add: empty_s3_def no_fault_def)
  have h5: "header_safe_map [''Owner'' \<mapsto> ''bob'']"
    by (simp add: header_safe_map_def canonical_key_def trim_space_def space_char_def
        token_char_def text_char_def to_upper_def to_lower_def lower_letters_def
        upper_letters_def)
  have ne: "[''Owner'' \<mapsto> ''bob''] \<noteq> Map.empty"
    by simp
  have bn: "basename ''d/p'' = ''p''"
    by (simp add: basename_def)
  show ?thesis
    using CreateFile_then_Stat_metadata
            [of "[''Owner'' \<mapsto> ''bob'']" "[''Owner'']" empty_store "''d/p''" "''hello''"
                empty_s3]
          h1 h2 h3 h4 h5 ne bn
    by simp
qed

section \<open>Metadata after a copy\<close>





















section \<open>The chunked upload: parts\<close>

lemma chunks_Nil [simp]: "chunks n [] = []"
  by (simp add: chunks.simps)

lemma chunks_short: "0 < n \<Longrightarrow> d \<noteq> [] \<Longrightarrow> length d \<le> n \<Longrightarrow> chunks n d = [d]"
  by (subst chunks.simps) simp

lemma chunks_long:
  "0 < n \<Longrightarrow> n < length d \<Longrightarrow> chunks n d = take n d # chunks n (drop n d)"
  by (subst chunks.simps) auto

lemma concat_chunks: "0 < n \<Longrightarrow> concat (chunks n d) = d"
proof (induction n d rule: chunks.induct)
  case (1 n d)
  show ?case
  proof (cases "d = []")
    case True
    then show ?thesis by simp
  next
    case False
    with 1 show ?thesis
      by (subst chunks.simps) simp
  qed
qed

lemma chunks_not_Nil: "0 < n \<Longrightarrow> d \<noteq> [] \<Longrightarrow> chunks n d \<noteq> []"
  by (subst chunks.simps) simp

lemma length_chunks: "0 < n \<Longrightarrow> length (chunks n d) = (length d + n - 1) div n"
proof (induction n d rule: chunks.induct)
  case (1 n d)
  show ?case
  proof (cases "d = []")
    case True
    with 1 show ?thesis by simp
  next
    case False
    show ?thesis
    proof (cases "length d \<le> n")
      case True
      have "(length d + n - 1) div n = 1"
      proof -
        have "n \<le> length d + n - 1" using False by (cases d) auto
        moreover have "length d + n - 1 < 2 * n" using True "1.prems" by auto
        ultimately show ?thesis
          by (metis div_nat_eqI mult.commute mult.right_neutral mult_2_right nat_mult_1
              numeral_2_eq_2 mult_Suc_right One_nat_def)
      qed
      with chunks_short [OF "1.prems" False True] show ?thesis by simp
    next
      case long: False
      then have lt: "n < length d" by simp
      have ih: "length (chunks n (drop n d)) = (length (drop n d) + n - 1) div n"
        using "1.IH" "1.prems" False by simp
      have "(length d + n - 1) div n = Suc ((length d - n + n - 1) div n)"
      proof -
        have "length d + n - 1 = (length d - n + n - 1) + n" using lt "1.prems" by simp
        then show ?thesis using "1.prems" by (metis div_add_self2 Suc_eq_plus1 less_numeral_extra(3))
      qed
      with ih chunks_long [OF "1.prems" lt] show ?thesis by simp
    qed
  qed
qed
lemma numbered_append:
  "numbered pn (xs @ ys) = numbered pn xs @ numbered (pn + int (length xs)) ys"
  by (induction xs arbitrary: pn) (simp_all add: algebra_simps)

lemma length_numbered [simp]: "length (numbered pn ds) = length ds"
  by (induction ds arbitrary: pn) simp_all

lemma map_snd_numbered [simp]: "map snd (numbered pn ds) = ds"
  by (induction ds arbitrary: pn) simp_all

lemma numbered_keys: "p \<in> set (numbered pn ds) \<Longrightarrow> pn \<le> fst p"
  by (induction ds arbitrary: pn) force+

lemma numbered_ascending: "sorted_wrt (<) (map fst (numbered pn ds))"
proof (induction ds arbitrary: pn)
  case Nil
  then show ?case by simp
next
  case (Cons d ds)
  have "pn < fst p" if "p \<in> set (numbered (pn + 1) ds)" for p
    using numbered_keys [OF that] by simp
  with Cons show ?case by auto
qed

lemma numbered_distinct: "distinct (map fst (numbered pn ds))"
proof (induction ds arbitrary: pn)
  case Nil
  then show ?case by simp
next
  case (Cons d ds)
  have "pn \<noteq> fst p" if "p \<in> set (numbered (pn + 1) ds)" for p
    using numbered_keys [OF that] by simp
  with Cons show ?case by auto
qed

lemma map_of_numbered:
  "p \<in> set (numbered pn ds) \<Longrightarrow> map_of (numbered pn ds) (fst p) = Some (snd p)"
  using numbered_distinct [of pn ds] by (cases p) simp

lemma map_of_numbered_below: "i < pn \<Longrightarrow> map_of (numbered pn ds) i = None"
proof -
  assume "i < pn"
  then have "i \<notin> fst ` set (numbered pn ds)"
    using numbered_keys by force
  then show ?thesis by (simp add: map_of_eq_None_iff)
qed

text \<open>The service while nothing fails and the upload is open.\<close>

lemma UploadPart_ok:
  assumes "failing s = no_fault" and "uploads s uid = Some u"
  shows "client_UploadPart s path uid pn d
         = (Inr d,
            s\<lparr>calls := calls s @ [UploadPart path uid pn d],
              uploads := (uploads s)(uid \<mapsto> u\<lparr>upload_parts := (upload_parts u)(pn \<mapsto> d)\<rparr>)\<rparr>)"
  using assms by (simp add: client_UploadPart_def Let_def no_fault_def)

lemma send_parts_state:
  assumes "failing s = no_fault" and "uploads s uid = Some u"
  shows "send_parts s path uid pn ds
         = s\<lparr>calls := calls s @ map (\<lambda>p. UploadPart path uid (fst p) (snd p)) (numbered pn ds),
             uploads := (uploads s)(uid \<mapsto>
               u\<lparr>upload_parts := upload_parts u ++ map_of (numbered pn ds)\<rparr>)\<rparr>"
  using assms
proof (induction ds arbitrary: s pn u)
  case Nil
  then have "(uploads s)(uid \<mapsto> u) = uploads s"
    by (auto simp: fun_eq_iff)
  then show ?case by simp
next
  case (Cons d ds)
  let ?u1 = "u\<lparr>upload_parts := (upload_parts u)(pn \<mapsto> d)\<rparr>"
  let ?s1 = "s\<lparr>calls := calls s @ [UploadPart path uid pn d],
                uploads := (uploads s)(uid \<mapsto> ?u1)\<rparr>"
  have step: "snd (client_UploadPart s path uid pn d) = ?s1"
    using UploadPart_ok [OF Cons.prems] by simp
  have f1: "failing ?s1 = no_fault" using Cons.prems by simp
  have u1: "uploads ?s1 uid = Some ?u1" by simp
  have parts: "(upload_parts u)(pn \<mapsto> d) ++ map_of (numbered (pn + 1) ds)
               = (upload_parts u ++ map_of (numbered (pn + 1) ds))(pn \<mapsto> d)"
    using map_of_numbered_below [of pn "pn + 1" ds]
    by (auto simp: map_add_def fun_eq_iff split: option.splits)
  have "send_parts s path uid pn (d # ds) = send_parts ?s1 path uid (pn + 1) ds"
    by (simp add: step)
  also have "\<dots> = ?s1\<lparr>calls := calls ?s1
                          @ map (\<lambda>p. UploadPart path uid (fst p) (snd p)) (numbered (pn + 1) ds),
                        uploads := (uploads ?s1)(uid \<mapsto>
                          ?u1\<lparr>upload_parts := upload_parts ?u1
                                ++ map_of (numbered (pn + 1) ds)\<rparr>)\<rparr>"
    by (rule Cons.IH [OF f1 u1])
  also have "\<dots> = s\<lparr>calls := calls s
                         @ map (\<lambda>p. UploadPart path uid (fst p) (snd p)) (numbered pn (d # ds)),
                       uploads := (uploads s)(uid \<mapsto>
                         u\<lparr>upload_parts := upload_parts u ++ map_of (numbered pn (d # ds))\<rparr>)\<rparr>"
    by (simp add: parts)
  finally show ?case .
qed
lemma send_parts_append:
  "send_parts s path uid pn (xs @ ys)
   = send_parts (send_parts s path uid pn xs) path uid (pn + int (length xs)) ys"
  by (induction xs arbitrary: s pn) (simp_all add: algebra_simps)

text \<open>One turn of the loop, and the turn that leaves it.\<close>

lemma StreamToFile_loop_step:
  assumes "stream_Read n stream = ((buf, err), rest)"
    and "err = None \<or> err = Some io_EOF" and "buf \<noteq> []"
    and "client_UploadPart s path (UploadId resp) pn buf = (Inr etag, s1)"
  shows "StreamToFile_loop n s resp path stream pn cps
         = StreamToFile_loop n s1 resp path rest (pn + 1)
             (cps @ [\<lparr>ETag = etag, PartNumber = pn\<rparr>])"
  using assms by (subst StreamToFile_loop.simps) (auto simp: Let_def)

lemma StreamToFile_loop_break:
  assumes "stream_Read n stream = (([], err), rest)"
    and "err = None \<or> err = Some io_EOF"
  shows "StreamToFile_loop n s resp path stream pn cps = (Inr cps, s)"
  using assms by (subst StreamToFile_loop.simps) (auto simp: Let_def)

text \<open>The loop on one segment: its pieces are sent, and the loop goes on with the rest.\<close>

lemma StreamToFile_loop_segment:
  assumes "0 < n" and "e = None \<or> e = Some io_EOF" and "d \<noteq> []"
    and "failing s = no_fault" and "uploads s (UploadId resp) = Some u"
  shows "StreamToFile_loop n s resp path (Segment d e # rest) pn cps
         = StreamToFile_loop n (send_parts s path (UploadId resp) pn (chunks n d)) resp path rest
             (pn + int (length (chunks n d)))
             (cps @ map completed (numbered pn (chunks n d)))"
  using assms
proof (induction n d arbitrary: s u pn cps rule: chunks.induct)
  case (1 n d)
  note n = \<open>0 < n\<close> and d = \<open>d \<noteq> []\<close>
  show ?case
  proof (cases "length d \<le> n")
    case True
    have rd: "stream_Read n (Segment d e # rest) = ((d, e), rest)"
      using True by simp
    have up: "client_UploadPart s path (UploadId resp) pn d
              = (Inr d, snd (client_UploadPart s path (UploadId resp) pn d))"
      using UploadPart_ok [OF "1.prems"(4,5)] by simp
    show ?thesis
      using StreamToFile_loop_step [OF rd "1.prems"(2) d up, of cps]
      by (simp add: chunks_short [OF n d True] completed_def)
  next
    case False
    then have lt: "n < length d" by simp
    let ?u1 = "u\<lparr>upload_parts := (upload_parts u)(pn \<mapsto> take n d)\<rparr>"
    let ?s1 = "s\<lparr>calls := calls s @ [UploadPart path (UploadId resp) pn (take n d)],
                  uploads := (uploads s)(UploadId resp \<mapsto> ?u1)\<rparr>"
    have rd: "stream_Read n (Segment d e # rest)
              = ((take n d, None), Segment (drop n d) e # rest)"
      using False by simp
    have tk: "take n d \<noteq> []" using n d by simp
    have dr: "drop n d \<noteq> []" using lt by simp
    have up: "client_UploadPart s path (UploadId resp) pn (take n d) = (Inr (take n d), ?s1)"
      by (rule UploadPart_ok [OF "1.prems"(4,5)])
    have f1: "failing ?s1 = no_fault" using "1.prems"(4) by simp
    have u1: "uploads ?s1 (UploadId resp) = Some ?u1" by simp
    have "StreamToFile_loop n s resp path (Segment d e # rest) pn cps
          = StreamToFile_loop n ?s1 resp path (Segment (drop n d) e # rest) (pn + 1)
              (cps @ [\<lparr>ETag = take n d, PartNumber = pn\<rparr>])"
      by (rule StreamToFile_loop_step [OF rd _ tk up]) simp
    also have "\<dots> = StreamToFile_loop n
                        (send_parts ?s1 path (UploadId resp) (pn + 1) (chunks n (drop n d)))
                        resp path rest
                        (pn + 1 + int (length (chunks n (drop n d))))
                        ((cps @ [\<lparr>ETag = take n d, PartNumber = pn\<rparr>])
                         @ map completed (numbered (pn + 1) (chunks n (drop n d))))"
      using n d by (intro "1.IH" [OF _ n "1.prems"(2) dr f1 u1]) simp
    also have "\<dots> = StreamToFile_loop n
                        (send_parts s path (UploadId resp) pn (chunks n d)) resp path rest
                        (pn + int (length (chunks n d)))
                        (cps @ map completed (numbered pn (chunks n d)))"
      using up by (simp add: chunks_long [OF n lt] completed_def algebra_simps)
    finally show ?thesis .
  qed
qed

text \<open>The loop on a source that is readable: it sends the pieces of every segment under
  consecutive part numbers and leaves with the parts it has completed.\<close>

lemma StreamToFile_loop_readable:
  assumes "0 < n" and "readable stream"
    and "failing s = no_fault" and "uploads s (UploadId resp) = Some u"
  shows "StreamToFile_loop n s resp path stream pn cps
         = (Inr (cps @ map completed (numbered pn (chunked_reads n stream))),
            send_parts s path (UploadId resp) pn (chunked_reads n stream))"
  using assms(2-)
proof (induction stream arbitrary: s u pn cps)
  case Nil
  have "stream_Read n [] = (([], Some io_EOF), [])" by simp
  from StreamToFile_loop_break [OF this] show ?case
    by (simp add: chunked_reads_def)
next
  case (Cons sg rest)
  obtain d e where sg: "sg = Segment d e" by (cases sg)
  from Cons.prems(1) sg have d: "d \<noteq> []" and e: "e = None \<or> e = Some io_EOF"
    and rest: "readable rest"
    by (simp_all add: readable_def)
  let ?s' = "send_parts s path (UploadId resp) pn (chunks n d)"
  have st: "?s' = s\<lparr>calls := calls s
                        @ map (\<lambda>p. UploadPart path (UploadId resp) (fst p) (snd p))
                            (numbered pn (chunks n d)),
                      uploads := (uploads s)(UploadId resp \<mapsto>
                        u\<lparr>upload_parts := upload_parts u ++ map_of (numbered pn (chunks n d))\<rparr>)\<rparr>"
    by (rule send_parts_state [OF Cons.prems(2,3)])
  have f': "failing ?s' = no_fault"
    using Cons.prems(2) by (simp add: st)
  have u': "uploads ?s' (UploadId resp)
            = Some (u\<lparr>upload_parts := upload_parts u ++ map_of (numbered pn (chunks n d))\<rparr>)"
    by (simp add: st)
  have "StreamToFile_loop n s resp path (sg # rest) pn cps
        = StreamToFile_loop n ?s' resp path rest (pn + int (length (chunks n d)))
            (cps @ map completed (numbered pn (chunks n d)))"
    unfolding sg by (rule StreamToFile_loop_segment [OF assms(1) e d Cons.prems(2,3)])
  also have "\<dots> = (Inr ((cps @ map completed (numbered pn (chunks n d)))
                          @ map completed (numbered (pn + int (length (chunks n d)))
                                             (chunked_reads n rest))),
                     send_parts ?s' path (UploadId resp) (pn + int (length (chunks n d)))
                       (chunked_reads n rest))"
    by (rule Cons.IH [OF rest f' u'])
  also have "\<dots> = (Inr (cps @ map completed (numbered pn (chunked_reads n (sg # rest)))),
                     send_parts s path (UploadId resp) pn (chunked_reads n (sg # rest)))"
    by (simp add: chunked_reads_def sg numbered_append send_parts_append)
  finally show ?case .
qed
lemma concat_chunked_reads:
  "0 < n \<Longrightarrow> concat (chunked_reads n stream) = concat (map seg_bytes stream)"
  by (induction stream) (simp_all add: chunked_reads_def concat_chunks)

lemma chunked_reads_not_Nil:
  "0 < n \<Longrightarrow> readable stream \<Longrightarrow> stream \<noteq> [] \<Longrightarrow> chunked_reads n stream \<noteq> []"
  by (cases stream) (simp_all add: chunked_reads_def readable_def chunks_not_Nil)

lemma chunkSize_positive: "0 < chunkSize"
  by (simp add: chunkSize_def)

lemma received_numbered:
  assumes "upload_parts u = map_of (numbered pn ds)"
  shows "list_all (part_received u) (map completed (numbered pn ds))"
    and "map (part_body u) (map completed (numbered pn ds)) = ds"
proof -
  have each: "upload_parts u (fst p) = Some (snd p)" if "p \<in> set (numbered pn ds)" for p
    using assms map_of_numbered [OF that] by simp
  then show "list_all (part_received u) (map completed (numbered pn ds))"
    by (simp add: list_all_iff part_received_def completed_def)
  have "map (part_body u \<circ> completed) (numbered pn ds) = map snd (numbered pn ds)"
    by (rule map_cong [OF refl]) (simp add: part_body_def completed_def each)
  then show "map (part_body u) (map completed (numbered pn ds)) = ds"
    by simp
qed

lemma butlast_chunks: "0 < n \<Longrightarrow> x \<in> set (butlast (chunks n d)) \<Longrightarrow> length x = n"
proof (induction n d rule: chunks.induct)
  case (1 n d)
  show ?case
  proof (cases "n < length d")
    case True
    then have d: "d \<noteq> []" by auto
    have ch: "chunks n d = take n d # chunks n (drop n d)"
      using "1.prems"(1) True by (rule chunks_long)
    show ?thesis
    proof (cases "chunks n (drop n d) = []")
      case True
      with ch "1.prems"(2) show ?thesis by simp
    next
      case False
      with ch "1.prems"(2) have "x = take n d \<or> x \<in> set (butlast (chunks n (drop n d)))"
        by simp
      then show ?thesis
      proof
        assume "x = take n d"
        with True show ?thesis by simp
      next
        assume "x \<in> set (butlast (chunks n (drop n d)))"
        then show ?thesis
          using "1.IH" "1.prems"(1) d by simp
      qed
    qed
  next
    case False
    show ?thesis
    proof (cases "d = []")
      case True
      with "1.prems"(2) show ?thesis by simp
    next
      case nonempty: False
      from False have "length d \<le> n" by simp
      from chunks_short [OF "1.prems"(1) nonempty this] "1.prems"(2) show ?thesis by simp
    qed
  qed
qed

text \<open>The whole of \<open>StreamToFile\<close> on a source that is readable and not empty, where
  the service does not fail and every piece but the last has the size that the service
  asks of a part.\<close>

lemma S3_StreamToFile_readable:
  assumes "readable stream" and "stream \<noteq> []" and "failing s = no_fault"
    and "list_all (\<lambda>d. minPartSize \<le> length d) (butlast (chunked_reads chunkSize stream))"
  shows "S3_StreamToFile s stream path
         = (None,
            s\<lparr>calls := calls s @ [CreateMultipartUpload path]
                  @ map (\<lambda>p. UploadPart path (next_upload s) (fst p) (snd p))
                      (numbered 1 (chunked_reads chunkSize stream))
                  @ [CompleteMultipartUpload path (next_upload s)],
              uploads := (uploads s)(next_upload s := None),
              next_upload := Suc (next_upload s),
              objects := (objects s)(path \<mapsto>
                \<lparr>Body = concat (map seg_bytes stream), Metadata = Map.empty\<rparr>)\<rparr>)"
proof -
  let ?uid = "next_upload s"
  let ?resp = "\<lparr>Key = path, UploadId = ?uid\<rparr>"
  let ?u0 = "\<lparr>upload_Key = path, upload_parts = Map.empty\<rparr>"
  let ?s1 = "s\<lparr>calls := calls s @ [CreateMultipartUpload path],
                uploads := (uploads s)(?uid \<mapsto> ?u0),
                next_upload := Suc ?uid\<rparr>"
  let ?rs = "chunked_reads chunkSize stream"
  let ?cps = "map completed (numbered 1 ?rs)"
  let ?u2 = "?u0\<lparr>upload_parts := upload_parts ?u0 ++ map_of (numbered 1 ?rs)\<rparr>"
  let ?s2 = "?s1\<lparr>calls := calls ?s1
                    @ map (\<lambda>p. UploadPart path ?uid (fst p) (snd p)) (numbered 1 ?rs),
                  uploads := (uploads ?s1)(?uid \<mapsto> ?u2)\<rparr>"
  have create: "client_CreateMultipartUpload s path = (Inr ?resp, ?s1)"
    using assms(3) by (simp add: client_CreateMultipartUpload_def Let_def no_fault_def)
  have f1: "failing ?s1 = no_fault" using assms(3) by simp
  have u1: "uploads ?s1 (UploadId ?resp) = Some ?u0" by simp
  have loop: "StreamToFile_loop chunkSize ?s1 ?resp path stream 1 []
              = (Inr ?cps, send_parts ?s1 path ?uid 1 ?rs)"
    using StreamToFile_loop_readable [OF chunkSize_positive assms(1) f1 u1, of path 1 "[]"]
    by simp
  have sent: "send_parts ?s1 path ?uid 1 ?rs = ?s2"
    using send_parts_state [OF f1, of ?uid ?u0 path 1 ?rs] by simp
  have parts: "upload_parts ?u2 = map_of (numbered 1 ?rs)" by simp
  have ne: "?cps \<noteq> []"
    using chunked_reads_not_Nil [OF chunkSize_positive assms(1,2)]
    by (cases ?rs) simp_all
  have asc: "sorted_wrt (<) (map PartNumber ?cps)"
  proof -
    have "map PartNumber ?cps = map fst (numbered 1 ?rs)"
      by (simp add: completed_def)
    then show ?thesis by (simp only: numbered_ascending)
  qed
  have bodies: "map (part_body ?u2) ?cps = ?rs"
    by (rule received_numbered(2) [OF parts])
  have large: "list_all (\<lambda>p. minPartSize \<le> length (part_body ?u2 p)) (butlast ?cps)"
  proof -
    have "map (part_body ?u2) (butlast ?cps) = butlast ?rs"
      using bodies by (simp add: map_butlast)
    then have "list_all (\<lambda>d. minPartSize \<le> length d) (map (part_body ?u2) (butlast ?cps))"
      using assms(4) by simp
    then show ?thesis
      by (simp add: list_all_iff)
  qed
  have body: "concat (map (part_body ?u2) ?cps) = concat (map seg_bytes stream)"
    using bodies concat_chunked_reads [OF chunkSize_positive, of stream]
    by simp
  have complete: "completeMultipartUpload ?s2 ?resp ?cps
      = (None,
         ?s2\<lparr>calls := calls ?s2 @ [CompleteMultipartUpload path ?uid],
              objects := (objects ?s2)(path \<mapsto>
                \<lparr>Body = concat (map seg_bytes stream), Metadata = Map.empty\<rparr>),
              uploads := (uploads ?s2)(?uid := None)\<rparr>)"
    using ne asc received_numbered(1) [OF parts] large body assms(3)
    by (simp add: completeMultipartUpload_def client_CompleteMultipartUpload_def Let_def
        no_fault_def)
  have "S3_StreamToFile s stream path = completeMultipartUpload ?s2 ?resp ?cps"
    unfolding S3_StreamToFile_def S3_StreamToFileWithContext_def
    by (simp only: create loop sent prod.case sum.case)
  also note complete
  finally show ?thesis by simp
qed

lemma numbers_of_numbered: "map fst (numbered pn ds) = [pn..pn + int (length ds) - 1]"
proof (induction ds arbitrary: pn)
  case Nil
  then show ?case by simp
next
  case (Cons d ds)
  have "[pn..pn + int (length (d # ds)) - 1] = pn # [pn + 1..pn + 1 + int (length ds) - 1]"
    by (subst upto_rec1) (simp_all add: algebra_simps)
  with Cons [of "pn + 1"] show ?case by simp
qed

text \<open>
  Where every \<open>Read\<close> fills the buffer, the upload is the one of 5 MiB chunks. For a
  source in memory, which is one segment, and a service that does not fail, the call
  succeeds, the parts sent are the 5 MiB chunks of the input under the numbers 1, 2 and
  so on, the last one smaller when the length is no multiple, the upload is closed and
  the content of the object is the input. An input of \<open>len\<close> bytes gives
  \<open>(len + 5 MiB - 1) div 5 MiB\<close> parts (\<open>length_chunks\<close>): 1, 1 and 2 parts for 5 MiB,
  5 MiB - 1 and 5 MiB + 1 bytes.
\<close>

lemma S3_StreamToFile_in_memory:
  assumes "d \<noteq> []" and "failing s = no_fault"
  shows "S3_StreamToFile s [Segment d None] path
         = (None,
            s\<lparr>calls := calls s @ [CreateMultipartUpload path]
                  @ map (\<lambda>p. UploadPart path (next_upload s) (fst p) (snd p))
                      (numbered 1 (chunks chunkSize d))
                  @ [CompleteMultipartUpload path (next_upload s)],
              uploads := (uploads s)(next_upload s := None),
              next_upload := Suc (next_upload s),
              objects := (objects s)(path \<mapsto> \<lparr>Body = d, Metadata = Map.empty\<rparr>)\<rparr>)"
proof -
  have r: "readable [Segment d None]"
    using assms(1) by (simp add: readable_def)
  have large: "list_all (\<lambda>x. minPartSize \<le> length x)
                 (butlast (chunked_reads chunkSize [Segment d None]))"
    using butlast_chunks [OF chunkSize_positive, of _ d]
    by (auto simp: list_all_iff chunked_reads_def chunkSize_def minPartSize_def)
  show ?thesis
    using S3_StreamToFile_readable [OF r _ assms(2) large, of path]
    by (simp add: chunked_reads_def)
qed

lemma part_counts:
  "length d = chunkSize \<Longrightarrow> length (chunks chunkSize d) = 1"
  "length d = chunkSize - 1 \<Longrightarrow> length (chunks chunkSize d) = 1"
  "length d = chunkSize + 1 \<Longrightarrow> length (chunks chunkSize d) = 2"
  using length_chunks [OF chunkSize_positive, of d]
  by (simp_all add: chunkSize_def)

text \<open>
  C1: the code breaks the claim for a source that delivers less than the buffer holds,
  as every \<open>io.Reader\<close> may. The loop sends what one \<open>Read\<close> delivers as one part and
  does not fill the buffer first. Two bytes that arrive one by one are sent as two parts
  of one byte, where the 5 MiB chunks of the two bytes are one chunk; the service
  refuses to complete an upload whose first part is under 5 MiB, so the call returns
  that error, no object is created, and the upload is left open with its parts.
\<close>

theorem StreamToFile_short_reads_refused:
  "S3_StreamToFile empty_s3 [Segment ''a'' None, Segment ''b'' None] ''k''
     = (Some (OtherError ''EntityTooSmall''),
        empty_s3\<lparr>calls := [CreateMultipartUpload ''k'', UploadPart ''k'' 0 1 ''a'',
                           UploadPart ''k'' 0 2 ''b'', CompleteMultipartUpload ''k'' 0],
                 uploads := [0 \<mapsto> \<lparr>upload_Key = ''k'',
                                      upload_parts = [1 \<mapsto> ''a'', 2 \<mapsto> ''b'']\<rparr>],
                 next_upload := 1\<rparr>)
   \<and> objects (snd (S3_StreamToFile empty_s3 [Segment ''a'' None, Segment ''b'' None] ''k''))
         ''k'' = None
   \<and> chunks chunkSize ''ab'' = [''ab'']"
proof -
  have run: "S3_StreamToFile empty_s3 [Segment ''a'' None, Segment ''b'' None] ''k''
     = (Some (OtherError ''EntityTooSmall''),
        empty_s3\<lparr>calls := [CreateMultipartUpload ''k'', UploadPart ''k'' 0 1 ''a'',
                           UploadPart ''k'' 0 2 ''b'', CompleteMultipartUpload ''k'' 0],
                 uploads := [0 \<mapsto> \<lparr>upload_Key = ''k'',
                                      upload_parts = [1 \<mapsto> ''a'', 2 \<mapsto> ''b'']\<rparr>],
                 next_upload := 1\<rparr>)"
    by (simp add: S3_StreamToFile_def S3_StreamToFileWithContext_def StreamToFile_loop.simps
        client_CreateMultipartUpload_def client_UploadPart_def completeMultipartUpload_def
        client_CompleteMultipartUpload_def part_received_def part_body_def minPartSize_def
        chunkSize_def empty_s3_def no_fault_def Let_def)
  have "chunks chunkSize ''ab'' = [''ab'']"
    by (simp add: chunks_short chunkSize_def)
  with run show ?thesis
    by (simp add: empty_s3_def)
qed

end
